theory Spec2Isabelle
  imports Complex_Main "HOL-Library.AList" "HOL-Library.Multiset" "HOL-Library.Log_Nat"
begin

section \<open>Numbers, errors and plain objects\<close>

text \<open>
  The program is JavaScript (\<^verbatim>\<open>src/main.js\<close>).  Its numbers are modelled as exact
  reals: sums and products do not round.  The places where the source leaves the reals
  are written out: a division by zero in \<^verbatim>\<open>analyzeSequence\<close> (Infinity or NaN), the
  values \<^verbatim>\<open>undefined\<close> and \<^verbatim>\<open>NaN\<close> that reach the bonus strategy, and the rounding of
  the sums of the Metrics Accumulator, which is written once more in the arithmetic of
  IEEE doubles where a property depends on it.

  A thrown exception is a value \<open>Inl e\<close> of the result type.
\<close>

datatype error =
    InvalidData            \<comment> \<open>first \<^verbatim>\<open>throw\<close> of \<^verbatim>\<open>analyzeSalesData\<close> (dataset check)\<close>
  | OptionsNotObject       \<comment> \<open>second \<^verbatim>\<open>throw\<close>: options is not an object\<close>
  | MissingStrategy        \<comment> \<open>third \<^verbatim>\<open>throw\<close>: a strategy is falsy\<close>
  | StrategyNotFunction    \<comment> \<open>fourth \<^verbatim>\<open>throw\<close>: a strategy is not a function\<close>
  | TypeError              \<comment> \<open>the engine's own: property of \<^verbatim>\<open>null\<close>/\<^verbatim>\<open>undefined\<close>, call of a non-function\<close>

text \<open>
  \<^verbatim>\<open>+(x).toFixed(2)\<close>: the nearest multiple of 1/100, a tie going away from zero
  (\<^verbatim>\<open>toFixed\<close> rounds the absolute value, the larger candidate on a tie, and puts the
  sign back).
\<close>

definition toFixed2 :: "real \<Rightarrow> real" where
  "toFixed2 x =
     (if x < 0 then - (of_int \<lfloor>- x * 100 + 1 / 2\<rfloor> / 100)
      else of_int \<lfloor>x * 100 + 1 / 2\<rfloor> / 100)"

subsection \<open>Plain objects used as dictionaries\<close>

text \<open>
  A plain object \<^verbatim>\<open>{}\<close> is the list of its own properties in creation order.  Property
  keys are strings.  Assigning to an existing key keeps its place; a new key goes last.
  Enumeration (\<^verbatim>\<open>Object.entries\<close>, \<^verbatim>\<open>Object.keys\<close>) does not follow creation order
  throughout: the keys that are array indices (the canonical decimal numerals of
  \<open>0 .. 2^32 - 2\<close>) come first, in ascending numeric order, and the other keys follow in
  creation order.  Keys are assumed not to be names that every object inherits from
  \<^verbatim>\<open>Object.prototype\<close> (such as \<^verbatim>\<open>constructor\<close>); lookups read own properties only.
\<close>

type_synonym 'v jsobject = "(string \<times> 'v) list"

definition isDigit :: "char \<Rightarrow> bool" where
  "isDigit c = (c \<in> set ''0123456789'')"

definition digitsValue :: "string \<Rightarrow> nat" where
  "digitsValue s = foldl (\<lambda>n c. 10 * n + (of_char c - 48)) 0 s"

definition arrayIndex :: "string \<Rightarrow> nat option" where
  "arrayIndex s =
     (if s \<noteq> [] \<and> list_all isDigit s \<and> (s = ''0'' \<or> hd s \<noteq> CHR ''0'')
         \<and> digitsValue s \<le> 4294967294
      then Some (digitsValue s) else None)"

definition isArrayIndex :: "string \<Rightarrow> bool" where
  "isArrayIndex s = (arrayIndex s \<noteq> None)"

definition Object_entries :: "'v jsobject \<Rightarrow> (string \<times> 'v) list" where
  "Object_entries obj =
     sort_key (\<lambda>p. the (arrayIndex (fst p))) (filter (\<lambda>p. isArrayIndex (fst p)) obj)
     @ filter (\<lambda>p. \<not> isArrayIndex (fst p)) obj"

definition Object_keys :: "'v jsobject \<Rightarrow> string list" where
  "Object_keys obj = map fst (Object_entries obj)"

text \<open>
  \<^verbatim>\<open>Array.prototype.sort(cmp)\<close> is stable.  It is modelled as insertion sort by the
  comparator: an element goes before the first element it does not compare greater
  than.  The comparator returns a number; \<open>cmp a b \<le> 0\<close> reads "a is not after b".
\<close>

fun insertBy :: "('a \<Rightarrow> 'a \<Rightarrow> real) \<Rightarrow> 'a \<Rightarrow> 'a list \<Rightarrow> 'a list" where
  "insertBy cmp x [] = [x]"
| "insertBy cmp x (y # ys) = (if cmp x y \<le> 0 then x # y # ys else y # insertBy cmp x ys)"

definition sortBy :: "('a \<Rightarrow> 'a \<Rightarrow> real) \<Rightarrow> 'a list \<Rightarrow> 'a list" where
  "sortBy cmp xs = foldr (insertBy cmp) xs []"

section \<open>Grouper\<close>

text \<open>
  \<^verbatim>\<open>
  function groupBy(array, keyFn) {
      return array.reduce((acc, item) => {
          const key = keyFn(item);
          if (!acc[key]) acc[key] = [];
          acc[key].push(item);
          return acc;
      }, {});
  }
  \<close>
  A bucket is an array, and an array is never falsy, so the test only asks whether the key
  is there.
\<close>

definition groupByStep :: "('a \<Rightarrow> string) \<Rightarrow> 'a list jsobject \<Rightarrow> 'a \<Rightarrow> 'a list jsobject" where
  "groupByStep keyFn acc item =
     (let key = keyFn item;
          acc1 = (if map_of acc key = None then AList.update key [] acc else acc)
      in AList.update key (the (map_of acc1 key) @ [item]) acc1)"

definition groupBy :: "'a list \<Rightarrow> ('a \<Rightarrow> string) \<Rightarrow> 'a list jsobject" where
  "groupBy array keyFn = foldl (groupByStep keyFn) [] array"

text \<open>The order of first occurrence of the elements of a list (the spec's words).\<close>

definition firstOccurrences :: "'a list \<Rightarrow> 'a list" where
  "firstOccurrences xs = foldl (\<lambda>seen x. if x \<in> set seen then seen else seen @ [x]) [] xs"

section \<open>Sequence Trend Analyzer\<close>

record trends =
  isStable :: bool
  isIncreasing :: bool
  isDecreasing :: bool

text \<open>
  \<^verbatim>\<open>relativeChange > tolerance\<close> with \<^verbatim>\<open>relativeChange = a / b\<close>, where \<open>a\<close> and \<open>b\<close> are
  absolute values.  For \<open>b = 0\<close> the quotient is Infinity when \<open>a > 0\<close> (greater than
  every tolerance) and NaN when \<open>a = 0\<close> (every comparison with NaN is false).
\<close>

definition relativeChangeExceeds :: "real \<Rightarrow> real \<Rightarrow> real \<Rightarrow> bool" where
  "relativeChangeExceeds a b tolerance = (if b = 0 then a \<noteq> 0 else a / b > tolerance)"

text \<open>The \<^verbatim>\<open>for\<close> loop with its \<^verbatim>\<open>break\<close>: \<open>prev\<close> is \<^verbatim>\<open>sequence[i - 1]\<close>.\<close>

fun stableScan :: "real \<Rightarrow> real list \<Rightarrow> real \<Rightarrow> bool" where
  "stableScan prev [] tolerance = True"
| "stableScan prev (x # xs) tolerance =
     (if relativeChangeExceeds \<bar>x - prev\<bar> \<bar>prev\<bar> tolerance then False
      else stableScan x xs tolerance)"

definition analyzeSequence :: "real list \<Rightarrow> real \<Rightarrow> trends" where
  "analyzeSequence sequence tolerance =
     (if length sequence < 2
      then \<lparr>isStable = True, isIncreasing = False, isDecreasing = False\<rparr>
      else
        (let start = sequence ! 0;
             end = sequence ! (length sequence - 1);
             totalChange = end - start
         in \<lparr>isStable = stableScan (sequence ! 0) (tl sequence) tolerance,
             isIncreasing = totalChange > 0,
             isDecreasing = totalChange < 0\<rparr>))"

text \<open>\<^verbatim>\<open>sum / values.length || 0\<close>: 0/0 is NaN, which is falsy.\<close>

definition calculateAverage :: "real list \<Rightarrow> real" where
  "calculateAverage values = (if values = [] then 0 else sum_list values / real (length values))"

section \<open>Data model\<close>

text \<open>
  Identifiers (\<^verbatim>\<open>sku\<close>, \<^verbatim>\<open>seller_id\<close>, \<^verbatim>\<open>customer_id\<close>, \<^verbatim>\<open>id\<close>) are property keys, so they
  are strings.  Field names that two records of the source share are told apart by a
  prefix.
\<close>

record item =
  sku :: string
  sale_price :: real
  quantity :: real
  discount :: real

record product =
  product_sku :: string
  purchase_price :: real

record purchase_record =
  seller_id :: string
  customer_id :: string
  date :: string
  total_amount :: real
  items :: "item list"

record seller =
  id :: string
  first_name :: string
  last_name :: string
  start_date :: string
  position :: string

record customer =
  customer_key :: string

record dataset =
  data_customers :: "customer list"
  data_products :: "product list"
  data_sellers :: "seller list"
  purchase_records :: "purchase_record list"

text \<open>A short-circuiting left fold: a \<^verbatim>\<open>reduce\<close> or \<^verbatim>\<open>forEach\<close> whose callback may throw.\<close>

fun foldE :: "('b \<Rightarrow> 'a \<Rightarrow> error + 'b) \<Rightarrow> 'b \<Rightarrow> 'a list \<Rightarrow> error + 'b" where
  "foldE f acc [] = Inr acc"
| "foldE f acc (x # xs) = (case f acc x of Inl e \<Rightarrow> Inl e | Inr acc' \<Rightarrow> foldE f acc' xs)"

text \<open>A \<^verbatim>\<open>map\<close> whose callback may throw: the first exception ends it.\<close>

fun mapE :: "('a \<Rightarrow> error + 'b) \<Rightarrow> 'a list \<Rightarrow> error + 'b list" where
  "mapE f [] = Inr []"
| "mapE f (x # xs) =
     (case f x of Inl e \<Rightarrow> Inl e
      | Inr y \<Rightarrow> (case mapE f xs of Inl e \<Rightarrow> Inl e | Inr ys \<Rightarrow> Inr (y # ys)))"

section \<open>Metrics Accumulator\<close>

text \<open>
  A \<^verbatim>\<open>Set\<close> keeps its elements in insertion order (\<^verbatim>\<open>Array.from\<close> reads them so): a
  duplicate-free list.
\<close>

definition setAdd :: "'a \<Rightarrow> 'a list \<Rightarrow> 'a list" where
  "setAdd x s = (if x \<in> set s then s else s @ [x])"

record seller_bucket =
  s_revenue :: real
  s_profit :: real
  s_items :: "item list"
  s_customers :: "string list"

record customer_bucket =
  c_revenue :: real
  c_profit :: real
  c_sellers :: "string list"

record product_bucket =
  p_quantity :: real
  p_revenue :: real

record stats =
  sellers :: "seller_bucket jsobject"
  customers :: "customer_bucket jsobject"
  products :: "product_bucket jsobject"

text \<open>
  The injected profit function receives the item and the result of
  \<^verbatim>\<open>products.find(p => p.sku === item.sku)\<close>, which is \<^verbatim>\<open>undefined\<close> (\<open>None\<close>) when no
  product has the sku.  It returns a number or throws.
\<close>

type_synonym profitFn = "item \<Rightarrow> product option \<Rightarrow> error + real"

text \<open>\<^verbatim>\<open>products.find(p => p.sku === item.sku)\<close>: the first match, or \<^verbatim>\<open>undefined\<close>.\<close>

definition findProduct :: "product list \<Rightarrow> string \<Rightarrow> product option" where
  "findProduct prods k = find (\<lambda>p. product_sku p = k) prods"

text \<open>\<^verbatim>\<open>item.sale_price * item.quantity * (1 - item.discount / 100)\<close>\<close>

definition lineRevenue :: "item \<Rightarrow> real" where
  "lineRevenue item = sale_price item * quantity item * (1 - discount item / 100)"

text \<open>
  \<^verbatim>\<open>
  function simpleProfit(item, product) {
      return item.sale_price * item.quantity * (1 - item.discount / 100)
             - product.purchase_price * item.quantity;
  }
  \<close>
  Reading \<^verbatim>\<open>purchase_price\<close> of \<^verbatim>\<open>undefined\<close> throws.
\<close>

definition simpleProfit :: profitFn where
  "simpleProfit item product =
     (case product of
        None \<Rightarrow> Inl TypeError
      | Some p \<Rightarrow>
          Inr (sale_price item * quantity item * (1 - discount item / 100)
               - purchase_price p * quantity item))"

text \<open>
  The body of \<^verbatim>\<open>record.items.forEach\<close> in \<^verbatim>\<open>baseMetrics\<close>, after the profit has been
  computed: what is written to the seller bucket, to the customer bucket and to the
  product bucket, and the three updates in the order of the source.
\<close>

definition sellerItem :: "string \<Rightarrow> real \<Rightarrow> item \<Rightarrow> seller_bucket \<Rightarrow> seller_bucket" where
  "sellerItem customerId profit item b =
     b\<lparr>s_revenue := s_revenue b + sale_price item * quantity item * (1 - discount item / 100),
       s_profit := s_profit b + profit,
       s_items := s_items b @ [item],
       s_customers := setAdd customerId (s_customers b)\<rparr>"

definition customerItem :: "string \<Rightarrow> real \<Rightarrow> item \<Rightarrow> customer_bucket \<Rightarrow> customer_bucket" where
  "customerItem sellerId profit item b =
     b\<lparr>c_revenue := c_revenue b + sale_price item * quantity item * (1 - discount item / 100),
       c_profit := c_profit b + profit,
       c_sellers := setAdd sellerId (c_sellers b)\<rparr>"

definition productItem :: "item \<Rightarrow> product_bucket \<Rightarrow> product_bucket" where
  "productItem item b =
     b\<lparr>p_quantity := p_quantity b + quantity item,
       p_revenue := p_revenue b + sale_price item * quantity item * (1 - discount item / 100)\<rparr>"

definition accumulateItem :: "string \<Rightarrow> string \<Rightarrow> real \<Rightarrow> stats \<Rightarrow> item \<Rightarrow> stats" where
  "accumulateItem sellerId customerId profit acc item =
     (let acc1 = acc\<lparr>sellers :=
                    AList.map_entry sellerId (sellerItem customerId profit item) (sellers acc)\<rparr>;
          acc2 = acc1\<lparr>customers :=
                    AList.map_entry customerId (customerItem sellerId profit item) (customers acc1)\<rparr>;
          acc3 = (if map_of (products acc2) (sku item) = None
                  then acc2\<lparr>products := AList.update (sku item)
                              \<lparr>p_quantity = 0, p_revenue = 0\<rparr> (products acc2)\<rparr>
                  else acc2)
      in acc3\<lparr>products := AList.map_entry (sku item) (productItem item) (products acc3)\<rparr>)"

text \<open>
  The whole body of \<^verbatim>\<open>record.items.forEach\<close>: the product is looked up, the profit
  function is called with the result, whatever it is, and the buckets are updated.
\<close>

definition metricsItemStep ::
  "profitFn \<Rightarrow> product list \<Rightarrow> string \<Rightarrow> string \<Rightarrow> stats \<Rightarrow> item \<Rightarrow> error + stats" where
  "metricsItemStep calcProfit prods sellerId customerId acc item =
     (let product = findProduct prods (sku item) in
      case calcProfit item product of
        Inl e \<Rightarrow> Inl e
      | Inr profit \<Rightarrow> Inr (accumulateItem sellerId customerId profit acc item))"

text \<open>The two lines that create the buckets of a record's seller and customer.\<close>

definition openBuckets :: "string \<Rightarrow> string \<Rightarrow> stats \<Rightarrow> stats" where
  "openBuckets sellerId customerId acc =
     (let acc1 = (if map_of (sellers acc) sellerId = None
                  then acc\<lparr>sellers := AList.update sellerId
                              \<lparr>s_revenue = 0, s_profit = 0, s_items = [], s_customers = []\<rparr>
                              (sellers acc)\<rparr>
                  else acc)
      in if map_of (customers acc1) customerId = None
         then acc1\<lparr>customers := AList.update customerId
                     \<lparr>c_revenue = 0, c_profit = 0, c_sellers = []\<rparr>
                     (customers acc1)\<rparr>
         else acc1)"

text \<open>The body of \<^verbatim>\<open>records.reduce\<close> in \<^verbatim>\<open>baseMetrics\<close>.\<close>

definition metricsRecordStep ::
  "profitFn \<Rightarrow> product list \<Rightarrow> stats \<Rightarrow> purchase_record \<Rightarrow> error + stats" where
  "metricsRecordStep calcProfit prods acc record =
     (let sellerId = seller_id record;
          customerId = customer_id record
      in foldE (metricsItemStep calcProfit prods sellerId customerId)
           (openBuckets sellerId customerId acc) (items record))"

definition baseMetrics :: "purchase_record list \<Rightarrow> profitFn \<Rightarrow> product list \<Rightarrow> error + stats" where
  "baseMetrics records calcProfit prods =
     foldE (metricsRecordStep calcProfit prods)
       \<lparr>sellers = [], customers = [], products = []\<rparr> records"

text \<open>
  The aggregates in the words of the spec, as sums over the items of the records; none
  of them reads the product catalog.  \<open>g\<close> is the profit of an item.
\<close>

definition allItems :: "purchase_record list \<Rightarrow> item list" where
  "allItems records = concat (map items records)"

definition sellerAggregate :: "(item \<Rightarrow> real) \<Rightarrow> purchase_record list \<Rightarrow> string \<Rightarrow> seller_bucket option" where
  "sellerAggregate g records s =
     (let own = filter (\<lambda>r. seller_id r = s) records in
      if own = [] then None
      else Some \<lparr>s_revenue = sum_list (map lineRevenue (allItems own)),
                 s_profit = sum_list (map g (allItems own)),
                 s_items = allItems own,
                 s_customers =
                   firstOccurrences (concat (map (\<lambda>r. map (\<lambda>i. customer_id r) (items r)) own))\<rparr>)"

definition customerAggregate :: "(item \<Rightarrow> real) \<Rightarrow> purchase_record list \<Rightarrow> string \<Rightarrow> customer_bucket option" where
  "customerAggregate g records c =
     (let own = filter (\<lambda>r. customer_id r = c) records in
      if own = [] then None
      else Some \<lparr>c_revenue = sum_list (map lineRevenue (allItems own)),
                 c_profit = sum_list (map g (allItems own)),
                 c_sellers =
                   firstOccurrences (concat (map (\<lambda>r. map (\<lambda>i. seller_id r) (items r)) own))\<rparr>)"

definition productAggregate :: "purchase_record list \<Rightarrow> string \<Rightarrow> product_bucket option" where
  "productAggregate records k =
     (let own = filter (\<lambda>i. sku i = k) (allItems records) in
      if own = [] then None
      else Some \<lparr>p_quantity = sum_list (map quantity own),
                 p_revenue = sum_list (map lineRevenue own)\<rparr>)"

section \<open>The Metrics Accumulator in floating-point arithmetic\<close>




text \<open>
  The accumulator once more, with the rounding of every arithmetic result as a
  parameter \<open>rnd\<close>: with \<open>double\<close> it is the program, and with the identity it is the
  exact arithmetic of the definitions above.  The expression
  \<^verbatim>\<open>item.sale_price * item.quantity * (1 - item.discount / 100)\<close> is evaluated as
  \<^verbatim>\<open>(sale_price * quantity) * (1 - (discount / 100))\<close>, and \<^verbatim>\<open>x += y\<close> stores the rounded
  sum.
\<close>

definition lineRevenueR :: "(real \<Rightarrow> real) \<Rightarrow> item \<Rightarrow> real" where
  "lineRevenueR rnd item =
     rnd (rnd (sale_price item * quantity item) * rnd (1 - rnd (discount item / 100)))"










section \<open>Bonus Rule Engine\<close>

record bonus_result =
  category :: string
  result_seller_id :: "string option"    \<comment> \<open>\<^verbatim>\<open>seller_id\<close>; \<open>None\<close> is \<^verbatim>\<open>undefined\<close>\<close>
  bonus :: real

record rule_context =
  stats :: stats
  recordsBySeller :: "purchase_record list jsobject"
  recordsByCustomer :: "purchase_record list jsobject"
  recordsByProduct :: "item list jsobject"
  ctx_sellers :: "seller list"
  ctx_customers :: "customer list"
  ctx_products :: "product list"
  calculateProfit :: profitFn

text \<open>
  \<^verbatim>\<open>calculateSpecialBonuses(data, options, bonusFunctions)\<close>: the context every rule
  receives, and the rules applied in order.  \<^verbatim>\<open>accumulateMetrics\<close> is injected.
\<close>

definition contextFor :: "dataset \<Rightarrow> profitFn \<Rightarrow> stats \<Rightarrow> rule_context" where
  "contextFor data calcProfit st =
     \<lparr>stats = st,
      recordsBySeller = groupBy (purchase_records data) seller_id,
      recordsByCustomer = groupBy (purchase_records data) customer_id,
      recordsByProduct = groupBy (concat (map items (purchase_records data))) sku,
      ctx_sellers = data_sellers data,
      ctx_customers = data_customers data,
      ctx_products = data_products data,
      calculateProfit = calcProfit\<rparr>"

definition ruleContext ::
  "dataset \<Rightarrow> profitFn \<Rightarrow> (purchase_record list \<Rightarrow> profitFn \<Rightarrow> product list \<Rightarrow> error + stats)
     \<Rightarrow> error + rule_context" where
  "ruleContext data calcProfit accumulateMetrics =
     (case accumulateMetrics (purchase_records data) calcProfit (data_products data) of
        Inl e \<Rightarrow> Inl e
      | Inr st \<Rightarrow> Inr (contextFor data calcProfit st))"

definition calculateSpecialBonuses ::
  "dataset \<Rightarrow> profitFn \<Rightarrow> (purchase_record list \<Rightarrow> profitFn \<Rightarrow> product list \<Rightarrow> error + stats)
     \<Rightarrow> (rule_context \<Rightarrow> error + bonus_result) list \<Rightarrow> error + bonus_result list" where
  "calculateSpecialBonuses data calcProfit accumulateMetrics bonusFunctions =
     (case ruleContext data calcProfit accumulateMetrics of
        Inl e \<Rightarrow> Inl e
      | Inr ctx \<Rightarrow> mapE (\<lambda>func. func ctx) bonusFunctions)"

subsection \<open>1. Best-Customer Seller\<close>

text \<open>
  \<^verbatim>\<open>
  const bestCustomer = Object.entries(stats.customers).reduce((max, [id, data]) =>
      data.revenue > (max?.revenue || 0) ? { id, ...data } : max, null);
  const sellerId = Array.from(bestCustomer.sellers).reduce((topSeller, sellerId) => {
      const revenue = stats.sellers[sellerId]?.revenue || 0;
      return revenue > (topSeller?.revenue || 0) ? { sellerId, revenue } : topSeller;
  }, null).sellerId;
  \<close>
  \<^verbatim>\<open>null\<close> is \<open>None\<close>; reading a property of \<^verbatim>\<open>null\<close> throws.
\<close>

definition bestCustomerOf :: "stats \<Rightarrow> (string \<times> customer_bucket) option" where
  "bestCustomerOf st =
     foldl (\<lambda>mx (cid, data).
              if c_revenue data > (case mx of None \<Rightarrow> 0 | Some m \<Rightarrow> c_revenue (snd m))
              then Some (cid, data) else mx)
       None (Object_entries (customers st))"

text \<open>\<^verbatim>\<open>stats.sellers[sellerId]?.revenue || 0\<close>\<close>

definition sellerRevenueOr0 :: "stats \<Rightarrow> string \<Rightarrow> real" where
  "sellerRevenueOr0 st sellerId =
     (case map_of (sellers st) sellerId of None \<Rightarrow> 0 | Some b \<Rightarrow> s_revenue b)"

definition topSellerOf :: "stats \<Rightarrow> string list \<Rightarrow> (string \<times> real) option" where
  "topSellerOf st sellerIds =
     foldl (\<lambda>topSeller sellerId.
              (let revenue = sellerRevenueOr0 st sellerId
               in if revenue > (case topSeller of None \<Rightarrow> 0 | Some t \<Rightarrow> snd t)
                  then Some (sellerId, revenue) else topSeller))
       None sellerIds"

definition bonusBestCustomer :: "rule_context \<Rightarrow> error + bonus_result" where
  "bonusBestCustomer ctx =
     (case bestCustomerOf (stats ctx) of
        None \<Rightarrow> Inl TypeError
      | Some bestCustomer \<Rightarrow>
          (case topSellerOf (stats ctx) (c_sellers (snd bestCustomer)) of
             None \<Rightarrow> Inl TypeError
           | Some topSeller \<Rightarrow>
               Inr \<lparr>category = ''Best Customer Seller'',
                    result_seller_id = Some (fst topSeller),
                    bonus = toFixed2 (c_revenue (snd bestCustomer) * 0.05)\<rparr>))"

subsection \<open>2. Best Customer Retention\<close>

text \<open>\<^verbatim>\<open>Math.max(...xs)\<close>: \<open>None\<close> is \<^verbatim>\<open>-Infinity\<close>, the value for no arguments.\<close>

fun Math_max :: "real list \<Rightarrow> real option" where
  "Math_max [] = None"
| "Math_max (x # xs) = (case Math_max xs of None \<Rightarrow> Some x | Some m \<Rightarrow> Some (max x m))"

text \<open>\<^verbatim>\<open>stats.customers[customerId]?.revenue || 0\<close>\<close>

definition customerRevenueOr0 :: "stats \<Rightarrow> string \<Rightarrow> real" where
  "customerRevenueOr0 st customerId =
     (case map_of (customers st) customerId of None \<Rightarrow> 0 | Some c \<Rightarrow> c_revenue c)"

definition bestRetentionOf :: "stats \<Rightarrow> (string \<times> real) option" where
  "bestRetentionOf st =
     foldl (\<lambda>best (sellerId, data).
              (let customerCounts = map (customerRevenueOr0 st) (s_customers data)
               in case Math_max customerCounts of
                    None \<Rightarrow> best
                  | Some maxCustomerRevenue \<Rightarrow>
                      if maxCustomerRevenue > (case best of None \<Rightarrow> 0 | Some b \<Rightarrow> snd b)
                      then Some (sellerId, maxCustomerRevenue) else best))
       None (Object_entries (sellers st))"

definition bonusCustomerRetention :: "rule_context \<Rightarrow> error + bonus_result" where
  "bonusCustomerRetention ctx =
     (case bestRetentionOf (stats ctx) of
        None \<Rightarrow> Inl TypeError
      | Some bestRetention \<Rightarrow>
          Inr \<lparr>category = ''Best Customer Retention'',
               result_seller_id = Some (fst bestRetention),
               bonus = 1000\<rparr>)"

subsection \<open>3. Largest Single Sale\<close>

text \<open>
  \<^verbatim>\<open>
  const largestSale = Object.entries(recordsBySeller).reduce((max, [sellerId, records]) => {
      const largestRecord = records.reduce((recordMax, record) =>
          record.total_amount > (recordMax?.total_amount || 0) ? record : recordMax, null);
      return largestRecord?.total_amount > (max?.total_amount || 0) ? largestRecord : max;
  }, null);
  \<close>
  \<^verbatim>\<open>undefined > x\<close> is false.
\<close>

definition largestRecordOf :: "purchase_record list \<Rightarrow> purchase_record option" where
  "largestRecordOf records =
     foldl (\<lambda>recordMax record.
              if total_amount record > (case recordMax of None \<Rightarrow> 0 | Some m \<Rightarrow> total_amount m)
              then Some record else recordMax)
       None records"

definition largestSaleOf :: "purchase_record list jsobject \<Rightarrow> purchase_record option" where
  "largestSaleOf bySeller =
     foldl (\<lambda>mx (sellerId, records).
              (case largestRecordOf records of
                 None \<Rightarrow> mx
               | Some largestRecord \<Rightarrow>
                   if total_amount largestRecord > (case mx of None \<Rightarrow> 0 | Some m \<Rightarrow> total_amount m)
                   then Some largestRecord else mx))
       None (Object_entries bySeller)"

definition bonusLargestSingleSale :: "rule_context \<Rightarrow> error + bonus_result" where
  "bonusLargestSingleSale ctx =
     (case largestSaleOf (recordsBySeller ctx) of
        None \<Rightarrow> Inl TypeError
      | Some largestSale \<Rightarrow>
          Inr \<lparr>category = ''Largest Single Sale'',
               result_seller_id = Some (seller_id largestSale),
               bonus = toFixed2 (total_amount largestSale * 0.1)\<rparr>)"

text \<open>
  The spec's direct global maximum: one pass over all records, a record replacing the
  best so far only when strictly greater, so the first record with the maximal
  \<^verbatim>\<open>total_amount\<close> wins.
\<close>

definition globalLargestSale :: "purchase_record list \<Rightarrow> error + bonus_result" where
  "globalLargestSale records =
     (case largestRecordOf records of
        None \<Rightarrow> Inl TypeError
      | Some largestSale \<Rightarrow>
          Inr \<lparr>category = ''Largest Single Sale'',
               result_seller_id = Some (seller_id largestSale),
               bonus = toFixed2 (total_amount largestSale * 0.1)\<rparr>)"

subsection \<open>4. Highest Average Profit\<close>

text \<open>
  \<^verbatim>\<open>
  const bestSeller = Object.entries(stats.sellers).reduce((max, [sellerId, data]) => {
      const avgProfit = data.profit / (data.items.length || 1);
      return avgProfit > (max?.avgProfit || 0) ? { sellerId, avgProfit } : max;
  }, null);
  \<close>
\<close>

text \<open>\<^verbatim>\<open>data.profit / (data.items.length || 1)\<close>\<close>

definition averageProfitOf :: "seller_bucket \<Rightarrow> real" where
  "averageProfitOf data =
     s_profit data / (if length (s_items data) = 0 then 1 else real (length (s_items data)))"

definition bestAverageOf :: "stats \<Rightarrow> (string \<times> real) option" where
  "bestAverageOf st =
     foldl (\<lambda>mx (sellerId, data).
              (let avgProfit = averageProfitOf data
               in if avgProfit > (case mx of None \<Rightarrow> 0 | Some m \<Rightarrow> snd m)
                  then Some (sellerId, avgProfit) else mx))
       None (Object_entries (sellers st))"

definition bonusHighestAverageProfit :: "rule_context \<Rightarrow> error + bonus_result" where
  "bonusHighestAverageProfit ctx =
     (case bestAverageOf (stats ctx) of
        None \<Rightarrow> Inl TypeError
      | Some bestSeller \<Rightarrow>
          Inr \<lparr>category = ''Highest Average Profit'',
               result_seller_id = Some (fst bestSeller),
               bonus = toFixed2 (snd bestSeller * 0.1)\<rparr>)"

subsection \<open>5. Stable Growth\<close>

text \<open>
  \<^verbatim>\<open>new Date(key)\<close> is the date parser of the engine.  The rule reads it only inside
  the comparator \<^verbatim>\<open>new Date(a) - new Date(b)\<close>, so the parser is a parameter \<open>dateOf\<close>:
  the time value of the date a key is parsed to, or \<open>None\<close> for an invalid date.  The
  difference with an invalid date is NaN, which the sort reads as 0.  When every key is
  a valid date the stable sort is determined by the comparator; otherwise the order is
  the engine's own, and the insertion sort is one such order.
\<close>

definition dateCompare :: "(string \<Rightarrow> real option) \<Rightarrow> string \<times> 'a \<Rightarrow> string \<times> 'a \<Rightarrow> real" where
  "dateCompare dateOf a b =
     (case (dateOf (fst a), dateOf (fst b)) of
        (Some x, Some y) \<Rightarrow> x - y
      | _ \<Rightarrow> 0)"

text \<open>
  \<^verbatim>\<open>
  const monthlyProfits = groupBy(records, record => record.date.slice(0, 7));
  const monthlyAverages = Object.entries(monthlyProfits)
      .sort(([a], [b]) => new Date(a) - new Date(b))
      .map(([month, records]) =>
          calculateAverage(records.flatMap(record =>
              record.items.map(item =>
                  calculateProfit(item, products.find(p => p.sku === item.sku))))));
  \<close>
  The result of \<^verbatim>\<open>products.find\<close> is passed on as it is.
\<close>

definition monthlyAverages ::
  "(string \<Rightarrow> real option) \<Rightarrow> profitFn \<Rightarrow> product list \<Rightarrow> purchase_record list
     \<Rightarrow> error + real list" where
  "monthlyAverages dateOf calcProfit prods records =
     (let monthlyProfits = groupBy records (\<lambda>record. take 7 (date record))
      in mapE (\<lambda>(month, recs).
                 case mapE (\<lambda>item. calcProfit item (findProduct prods (sku item)))
                        (concat (map items recs)) of
                   Inl e \<Rightarrow> Inl e
                 | Inr profits \<Rightarrow> Inr (calculateAverage profits))
           (sortBy (dateCompare dateOf) (Object_entries monthlyProfits)))"

definition stableGrowthStep ::
  "(string \<Rightarrow> real option) \<Rightarrow> profitFn \<Rightarrow> product list \<Rightarrow> (string \<times> real) option
     \<Rightarrow> string \<times> purchase_record list \<Rightarrow> error + (string \<times> real) option" where
  "stableGrowthStep dateOf calcProfit prods best entry =
     (case monthlyAverages dateOf calcProfit prods (snd entry) of
        Inl e \<Rightarrow> Inl e
      | Inr averages \<Rightarrow>
          (let t = analyzeSequence averages (5 / 100) in
           if isStable t \<and> isIncreasing t
           then (let avgProfit = calculateAverage averages
                 in Inr (if avgProfit > (case best of None \<Rightarrow> 0 | Some b \<Rightarrow> snd b)
                         then Some (fst entry, avgProfit) else best))
           else Inr best))"

definition bonusStableGrowth :: "(string \<Rightarrow> real option) \<Rightarrow> rule_context \<Rightarrow> error + bonus_result" where
  "bonusStableGrowth dateOf ctx =
     (case foldE (stableGrowthStep dateOf (calculateProfit ctx) (ctx_products ctx)) None
             (Object_entries (recordsBySeller ctx)) of
        Inl e \<Rightarrow> Inl e
      | Inr bestSeller \<Rightarrow>
          Inr \<lparr>category = ''Stable Growth'',
               result_seller_id = map_option fst bestSeller,
               bonus = toFixed2 (case bestSeller of None \<Rightarrow> 0 | Some b \<Rightarrow> snd b * 0.15)\<rparr>)"

section \<open>Ranking and Primary Bonus Assignor\<close>

subsection \<open>The arguments as the caller may pass them\<close>

text \<open>
  \<^verbatim>\<open>analyzeSalesData(data, options)\<close> checks its arguments at run time, so they are
  modelled with the shapes the checks tell apart.  A catalog is missing, present but not
  an array, or an array.  \<^verbatim>\<open>data\<close> itself is \<open>None\<close> when it is falsy.
\<close>

datatype 'a jsfield = Missing | NotArray | Array "'a list"

record dataset_arg =
  arg_customers :: "customer jsfield"
  arg_products :: "product jsfield"
  arg_sellers :: "seller jsfield"
  arg_purchase_records :: "purchase_record jsfield"

definition isArray :: "'a jsfield \<Rightarrow> bool" where
  "isArray f = (case f of Array xs \<Rightarrow> True | _ \<Rightarrow> False)"

definition arrayOf :: "'a jsfield \<Rightarrow> 'a list" where
  "arrayOf f = (case f of Array xs \<Rightarrow> xs | _ \<Rightarrow> [])"

text \<open>
  A strategy property of \<^verbatim>\<open>options\<close>: missing or falsy, a truthy value that is not a
  function, or a function.  \<^verbatim>\<open>options\<close>: \<^verbatim>\<open>undefined\<close> or \<^verbatim>\<open>null\<close>, a value whose
  \<^verbatim>\<open>typeof\<close> is not \<^verbatim>\<open>"object"\<close>, or an object.
\<close>

datatype 'f strategy = Absent | NotCallable | Fn 'f

record seller_stat =
  sellerId :: string
  firstName :: string
  lastName :: string
  startDate :: string
  sellerPosition :: string
  revenue :: real
  profit :: real
  sales_count :: real
  products_sold :: "real jsobject"

text \<open>
  The values the bonus strategy receives and returns.  The seller object it is handed
  also has \<^verbatim>\<open>bonus: 0\<close> and \<^verbatim>\<open>top_products: []\<close>, which are written after the call;
  they are kept outside \<open>seller_stat\<close>.
\<close>

datatype jsval = JUndefined | JNaN | JNum real | JSeller seller_stat

type_synonym revenueFn = "item \<Rightarrow> product \<Rightarrow> real"
type_synonym bonusFn = "jsval \<Rightarrow> jsval \<Rightarrow> jsval \<Rightarrow> error + jsval"

datatype options_arg =
    NoOptions
  | NotObject
  | Options "revenueFn strategy" "bonusFn strategy"

record report =
  report_seller_id :: string
  name :: string
  report_revenue :: real
  report_profit :: real
  report_sales_count :: real
  top_products :: "(string \<times> real) list"
  report_bonus :: real

subsection \<open>The reference strategies\<close>

text \<open>
  \<^verbatim>\<open>
  function calculateSimpleRevenue(purchase, _product) {
     const discount =   1 - (purchase.discount / 100);
     return purchase.sale_price * purchase.quantity * discount;
  }
  \<close>
\<close>

definition calculateSimpleRevenue :: revenueFn where
  "calculateSimpleRevenue purchase unused_product =
     (let discount' = 1 - (discount purchase / 100)
      in sale_price purchase * quantity purchase * discount')"

text \<open>
  \<^verbatim>\<open>v.profit\<close>: a seller object has the property; a number (or NaN) has none, so the
  result is \<^verbatim>\<open>undefined\<close>; reading a property of \<^verbatim>\<open>undefined\<close> throws.
  \<^verbatim>\<open>v * c\<close> for a number literal \<open>c\<close>: anything but a number gives NaN.
\<close>

definition profitOf :: "jsval \<Rightarrow> error + jsval" where
  "profitOf v =
     (case v of
        JUndefined \<Rightarrow> Inl TypeError
      | JNaN \<Rightarrow> Inr JUndefined
      | JNum n \<Rightarrow> Inr JUndefined
      | JSeller s \<Rightarrow> Inr (JNum (profit s)))"

definition jsTimes :: "jsval \<Rightarrow> real \<Rightarrow> jsval" where
  "jsTimes v c = (case v of JNum n \<Rightarrow> JNum (n * c) | _ \<Rightarrow> JNaN)"

text \<open>
  \<^verbatim>\<open>
  function calculateBonusByProfit(index, total, seller) {
      if(index === 0){
          return seller.profit * 0.15;
      } else if (index === 1 || index === 2){
          return seller.profit * 0.10;
      } else if(index === -1){
          return 0
      } else {
          return seller.profit * 0.05;
      }
  }
  \<close>
  \<^verbatim>\<open>===\<close> compares without conversion: only the number 0 is \<^verbatim>\<open>=== 0\<close>.
\<close>

definition calculateBonusByProfit :: bonusFn where
  "calculateBonusByProfit index total' seller =
     (if index = JNum 0 then
        (case profitOf seller of Inl e \<Rightarrow> Inl e | Inr p \<Rightarrow> Inr (jsTimes p 0.15))
      else if index = JNum 1 \<or> index = JNum 2 then
        (case profitOf seller of Inl e \<Rightarrow> Inl e | Inr p \<Rightarrow> Inr (jsTimes p 0.10))
      else if index = JNum (- 1) then
        Inr (JNum 0)
      else
        (case profitOf seller of Inl e \<Rightarrow> Inl e | Inr p \<Rightarrow> Inr (jsTimes p 0.05)))"

subsection \<open>analyzeSalesData\<close>

text \<open>
  \<^verbatim>\<open>Object.fromEntries\<close>: the entries are defined in order, a later entry replacing the
  value of an earlier one with the same key.
\<close>

definition Object_fromEntries :: "(string \<times> 'v) list \<Rightarrow> 'v jsobject" where
  "Object_fromEntries entries = foldl (\<lambda>obj (k, v). AList.update k v obj) [] entries"

text \<open>
  \<^verbatim>\<open>sellerStats\<close> is an array of objects that the loop over the records mutates through
  \<^verbatim>\<open>sellerIndex\<close>.  The model keeps the array as a list and lets \<^verbatim>\<open>sellerIndex\<close> map a
  seller id to the position of its object in that list.
\<close>

definition initialSellerStats :: "seller list \<Rightarrow> seller_stat list" where
  "initialSellerStats sellerCatalog =
     map (\<lambda>sellers. \<lparr>sellerId = id sellers,
                      firstName = first_name sellers,
                      lastName = last_name sellers,
                      startDate = start_date sellers,
                      sellerPosition = position sellers,
                      revenue = 0, profit = 0, sales_count = 0, products_sold = []\<rparr>)
       sellerCatalog"

definition sellerIndexOf :: "seller_stat list \<Rightarrow> nat jsobject" where
  "sellerIndexOf sellerStats =
     Object_fromEntries (map (\<lambda>(i, seller). (sellerId seller, i)) (enumerate 0 sellerStats))"

definition productIndexOf :: "product list \<Rightarrow> product jsobject" where
  "productIndexOf prods = Object_fromEntries (map (\<lambda>product. (product_sku product, product)) prods)"

text \<open>The body of \<^verbatim>\<open>record.items.forEach\<close>; \<open>i\<close> is the position of \<^verbatim>\<open>seller\<close>.\<close>

definition salesItemStep ::
  "revenueFn \<Rightarrow> product jsobject \<Rightarrow> nat \<Rightarrow> seller_stat list \<Rightarrow> item \<Rightarrow> seller_stat list" where
  "salesItemStep calculateRevenue productIndex i sellerStats item =
     (case map_of productIndex (sku item) of
        None \<Rightarrow> sellerStats
      | Some product \<Rightarrow>
          (let seller = sellerStats ! i;
               cost = purchase_price product * quantity item;
               revenue' = calculateRevenue item product;
               profit' = revenue' - cost;
               sold = products_sold seller;
               sold1 = (if (case map_of sold (sku item) of None \<Rightarrow> True | Some q \<Rightarrow> q = 0)
                        then AList.update (sku item) 0 sold else sold)
           in sellerStats[i := seller\<lparr>profit := profit seller + profit',
                                      products_sold :=
                                        AList.map_entry (sku item) (\<lambda>q. q + quantity item) sold1\<rparr>]))"

text \<open>The body of \<^verbatim>\<open>data.purchase_records.forEach\<close>.\<close>

definition salesRecordStep ::
  "revenueFn \<Rightarrow> nat jsobject \<Rightarrow> product jsobject \<Rightarrow> seller_stat list \<Rightarrow> purchase_record
     \<Rightarrow> seller_stat list" where
  "salesRecordStep calculateRevenue sellerIndex productIndex sellerStats record =
     (case map_of sellerIndex (seller_id record) of
        None \<Rightarrow> sellerStats
      | Some i \<Rightarrow>
          (let seller = sellerStats ! i;
               sellerStats1 = sellerStats[i := seller\<lparr>sales_count := sales_count seller + 1,
                                                      revenue := revenue seller + total_amount record\<rparr>]
           in foldl (salesItemStep calculateRevenue productIndex i) sellerStats1 (items record)))"

definition collectSellerStats :: "dataset \<Rightarrow> revenueFn \<Rightarrow> seller_stat list" where
  "collectSellerStats data calculateRevenue =
     (let sellerStats = initialSellerStats (data_sellers data);
          sellerIndex = sellerIndexOf sellerStats;
          productIndex = productIndexOf (data_products data)
      in foldl (salesRecordStep calculateRevenue sellerIndex productIndex) sellerStats
           (purchase_records data))"

text \<open>\<^verbatim>\<open>sellerStats.sort((a,b) => b.profit - a.profit)\<close>\<close>

definition rankSellers :: "seller_stat list \<Rightarrow> seller_stat list" where
  "rankSellers sellerStats = sortBy (\<lambda>a b. profit b - profit a) sellerStats"

text \<open>
  \<^verbatim>\<open>
  Object.entries(seller.products_sold || {})
      .map(([sku, quantity]) => ({sku, quantity}))
      .sort((a,b) => b.quantity - a.quantity)
      .slice(0,10)
  \<close>
\<close>

definition topProducts :: "seller_stat \<Rightarrow> (string \<times> real) list" where
  "topProducts seller =
     take 10 (sortBy (\<lambda>a b. snd b - snd a) (Object_entries (products_sold seller)))"

text \<open>
  The \<^verbatim>\<open>forEach\<close> that assigns \<^verbatim>\<open>seller.bonus = calculateBonus(seller, index,
  sellerStats.length)\<close> and \<^verbatim>\<open>seller.top_products\<close>: each seller with the two values
  written to it.
\<close>

definition assignBonuses ::
  "bonusFn \<Rightarrow> seller_stat list \<Rightarrow> error + (seller_stat \<times> jsval \<times> (string \<times> real) list) list" where
  "assignBonuses calculateBonus sellerStats =
     mapE (\<lambda>(index, seller).
             case calculateBonus (JSeller seller) (JNum (real index))
                    (JNum (real (length sellerStats))) of
               Inl e \<Rightarrow> Inl e
             | Inr b \<Rightarrow> Inr (seller, b, topProducts seller))
       (enumerate 0 sellerStats)"

text \<open>
  The final \<^verbatim>\<open>map\<close>.  \<^verbatim>\<open>+(seller.bonus || 0).toFixed(2)\<close>: \<^verbatim>\<open>undefined\<close>, NaN and 0 are
  falsy and give 0; an object is truthy and has no \<^verbatim>\<open>toFixed\<close>, so the call throws.
\<close>

definition sellerReport :: "seller_stat \<times> jsval \<times> (string \<times> real) list \<Rightarrow> error + report" where
  "sellerReport entry =
     (case entry of (seller, bonus', tops) \<Rightarrow>
        (case bonus' of
           JSeller obj \<Rightarrow> Inl TypeError
         | _ \<Rightarrow>
             Inr \<lparr>report_seller_id = sellerId seller,
                  name = firstName seller @ '' '' @ lastName seller,
                  report_revenue = toFixed2 (revenue seller),
                  report_profit = toFixed2 (profit seller),
                  report_sales_count = sales_count seller,
                  top_products = tops,
                  report_bonus = toFixed2 (case bonus' of JNum x \<Rightarrow> x | _ \<Rightarrow> 0)\<rparr>))"

text \<open>
  The four checks that open \<^verbatim>\<open>analyzeSalesData\<close>, in the order of the source, each
  with its own \<^verbatim>\<open>throw\<close>.  What passes is the dataset as four arrays and the two
  strategy functions.
\<close>

definition checkArguments ::
  "dataset_arg option \<Rightarrow> options_arg \<Rightarrow> error + (dataset \<times> revenueFn \<times> bonusFn)" where
  "checkArguments data options =
     (case data of
        None \<Rightarrow> Inl InvalidData
      | Some d \<Rightarrow>
          if \<not> isArray (arg_customers d)
             \<or> \<not> isArray (arg_products d)
             \<or> \<not> isArray (arg_sellers d)
             \<or> \<not> isArray (arg_purchase_records d)
             \<or> length (arrayOf (arg_customers d)) = 0
             \<or> length (arrayOf (arg_products d)) = 0
             \<or> length (arrayOf (arg_sellers d)) = 0
             \<or> length (arrayOf (arg_purchase_records d)) = 0
          then Inl InvalidData
          else
            (case options of
               NoOptions \<Rightarrow> Inl OptionsNotObject
             | NotObject \<Rightarrow> Inl OptionsNotObject
             | Options calculateRevenue calculateBonus \<Rightarrow>
                 (case (calculateRevenue, calculateBonus) of
                    (Absent, _) \<Rightarrow> Inl MissingStrategy
                  | (_, Absent) \<Rightarrow> Inl MissingStrategy
                  | (Fn calcRevenue, Fn calcBonus) \<Rightarrow>
                      Inr (\<lparr>data_customers = arrayOf (arg_customers d),
                            data_products = arrayOf (arg_products d),
                            data_sellers = arrayOf (arg_sellers d),
                            purchase_records = arrayOf (arg_purchase_records d)\<rparr>,
                           calcRevenue, calcBonus)
                  | _ \<Rightarrow> Inl StrategyNotFunction)))"

text \<open>Everything after the checks.\<close>

definition salesReport :: "dataset \<Rightarrow> revenueFn \<Rightarrow> bonusFn \<Rightarrow> error + report list" where
  "salesReport data calculateRevenue calculateBonus =
     (case assignBonuses calculateBonus (rankSellers (collectSellerStats data calculateRevenue)) of
        Inl e \<Rightarrow> Inl e
      | Inr ranked \<Rightarrow> mapE sellerReport ranked)"

definition analyzeSalesData :: "dataset_arg option \<Rightarrow> options_arg \<Rightarrow> error + report list" where
  "analyzeSalesData data options =
     (case checkArguments data options of
        Inl e \<Rightarrow> Inl e
      | Inr (d, calculateRevenue, calculateBonus) \<Rightarrow> salesReport d calculateRevenue calculateBonus)"

text \<open>
  The spec's conditions: a catalog is invalid when it is missing, not an array, or
  empty; the options are invalid when the argument is missing or not an object, or a
  strategy is missing or not callable.
\<close>

definition catalogInvalid :: "'a jsfield \<Rightarrow> bool" where
  "catalogInvalid f = (case f of Missing \<Rightarrow> True | NotArray \<Rightarrow> True | Array xs \<Rightarrow> xs = [])"

definition invalidDataset :: "dataset_arg option \<Rightarrow> bool" where
  "invalidDataset data =
     (case data of
        None \<Rightarrow> True
      | Some d \<Rightarrow> catalogInvalid (arg_customers d) \<or> catalogInvalid (arg_products d)
                  \<or> catalogInvalid (arg_sellers d) \<or> catalogInvalid (arg_purchase_records d))"

definition callable :: "'f strategy \<Rightarrow> bool" where
  "callable st = (case st of Fn f \<Rightarrow> True | _ \<Rightarrow> False)"

definition invalidOptions :: "options_arg \<Rightarrow> bool" where
  "invalidOptions options =
     (case options of
        NoOptions \<Rightarrow> True
      | NotObject \<Rightarrow> True
      | Options calculateRevenue calculateBonus \<Rightarrow>
          \<not> callable calculateRevenue \<or> \<not> callable calculateBonus)"

text \<open>
  The enumeration order of a list of keys given in creation order, and the skus of the
  items that count for the seller at position \<open>i\<close> of the catalog: the items with a
  product in the catalog, of the records whose \<^verbatim>\<open>seller_id\<close> the seller index resolves to
  that position, in the order of the records.
\<close>

definition enumerationOrder :: "string list \<Rightarrow> string list" where
  "enumerationOrder ks =
     sort_key (\<lambda>k. the (arrayIndex k)) (filter isArrayIndex ks)
     @ filter (\<lambda>k. \<not> isArrayIndex k) ks"

definition soldSkus :: "dataset \<Rightarrow> nat \<Rightarrow> string list" where
  "soldSkus data i =
     map sku
       (filter (\<lambda>item. sku item \<in> product_sku ` set (data_products data))
          (allItems
             (filter (\<lambda>r. map_of (sellerIndexOf (initialSellerStats (data_sellers data)))
                               (seller_id r) = Some i)
                (purchase_records data))))"

section \<open>A small dataset\<close>

text \<open>
  Four sellers, two products, one customer and four sales, used to run the definitions
  on concrete input.
\<close>

definition sampleSellers :: "seller list" where
  "sampleSellers =
     [\<lparr>id = ''seller_1'', first_name = ''Anna'', last_name = ''Ivanova'',
       start_date = ''2020-01-01'', position = ''Senior''\<rparr>,
      \<lparr>id = ''seller_2'', first_name = ''Boris'', last_name = ''Petrov'',
       start_date = ''2021-01-01'', position = ''Junior''\<rparr>,
      \<lparr>id = ''seller_3'', first_name = ''Vera'', last_name = ''Orlova'',
       start_date = ''2022-01-01'', position = ''Junior''\<rparr>,
      \<lparr>id = ''seller_4'', first_name = ''Gleb'', last_name = ''Sidorov'',
       start_date = ''2023-01-01'', position = ''Trainee''\<rparr>]"

definition sampleProducts :: "product list" where
  "sampleProducts =
     [\<lparr>product_sku = ''SKU_001'', purchase_price = 50\<rparr>,
      \<lparr>product_sku = ''SKU_002'', purchase_price = 20\<rparr>]"

definition sampleCustomers :: "customer list" where
  "sampleCustomers = [\<lparr>customer_key = ''customer_1''\<rparr>]"

definition sampleRecords :: "purchase_record list" where
  "sampleRecords =
     [\<lparr>seller_id = ''seller_1'', customer_id = ''customer_1'', date = ''2024-01-10'',
       total_amount = 200,
       items = [\<lparr>sku = ''SKU_001'', sale_price = 100, quantity = 2, discount = 0\<rparr>]\<rparr>,
      \<lparr>seller_id = ''seller_2'', customer_id = ''customer_1'', date = ''2024-01-11'',
       total_amount = 90,
       items = [\<lparr>sku = ''SKU_002'', sale_price = 30, quantity = 3, discount = 0\<rparr>]\<rparr>,
      \<lparr>seller_id = ''seller_3'', customer_id = ''customer_1'', date = ''2024-01-12'',
       total_amount = 60,
       items = [\<lparr>sku = ''SKU_002'', sale_price = 30, quantity = 2, discount = 0\<rparr>]\<rparr>,
      \<lparr>seller_id = ''seller_4'', customer_id = ''customer_1'', date = ''2024-01-13'',
       total_amount = 25,
       items = [\<lparr>sku = ''SKU_002'', sale_price = 25, quantity = 1, discount = 0\<rparr>]\<rparr>]"

definition sampleData :: dataset where
  "sampleData = \<lparr>data_customers = sampleCustomers, data_products = sampleProducts,
                  data_sellers = sampleSellers, purchase_records = sampleRecords\<rparr>"

definition sampleArg :: "dataset_arg option" where
  "sampleArg = Some \<lparr>arg_customers = Array sampleCustomers, arg_products = Array sampleProducts,
                     arg_sellers = Array sampleSellers, arg_purchase_records = Array sampleRecords\<rparr>"

text \<open>The metrics of the sample dataset under \<open>simpleProfit\<close>, and its rule context.\<close>

definition sampleStats :: stats where
  "sampleStats =
     \<lparr>sellers =
        [(''seller_1'', \<lparr>s_revenue = 200, s_profit = 100,
            s_items = [\<lparr>sku = ''SKU_001'', sale_price = 100, quantity = 2, discount = 0\<rparr>],
            s_customers = [''customer_1'']\<rparr>),
         (''seller_2'', \<lparr>s_revenue = 90, s_profit = 30,
            s_items = [\<lparr>sku = ''SKU_002'', sale_price = 30, quantity = 3, discount = 0\<rparr>],
            s_customers = [''customer_1'']\<rparr>),
         (''seller_3'', \<lparr>s_revenue = 60, s_profit = 20,
            s_items = [\<lparr>sku = ''SKU_002'', sale_price = 30, quantity = 2, discount = 0\<rparr>],
            s_customers = [''customer_1'']\<rparr>),
         (''seller_4'', \<lparr>s_revenue = 25, s_profit = 5,
            s_items = [\<lparr>sku = ''SKU_002'', sale_price = 25, quantity = 1, discount = 0\<rparr>],
            s_customers = [''customer_1'']\<rparr>)],
      customers =
        [(''customer_1'', \<lparr>c_revenue = 375, c_profit = 155,
            c_sellers = [''seller_1'', ''seller_2'', ''seller_3'', ''seller_4'']\<rparr>)],
      products =
        [(''SKU_001'', \<lparr>p_quantity = 2, p_revenue = 200\<rparr>),
         (''SKU_002'', \<lparr>p_quantity = 6, p_revenue = 175\<rparr>)]\<rparr>"

definition sampleContext :: rule_context where
  "sampleContext = contextFor sampleData simpleProfit sampleStats"

text \<open>
  A dataset with a return: the second sale has the quantity -2.  Its metrics and rule
  context under \<open>simpleProfit\<close>.
\<close>

definition returnRecords :: "purchase_record list" where
  "returnRecords =
     [\<lparr>seller_id = ''seller_1'', customer_id = ''customer_1'', date = ''2024-03-01'',
       total_amount = 100,
       items = [\<lparr>sku = ''SKU_001'', sale_price = 100, quantity = 1, discount = 0\<rparr>]\<rparr>,
      \<lparr>seller_id = ''seller_1'', customer_id = ''customer_2'', date = ''2024-03-02'',
       total_amount = - 200,
       items = [\<lparr>sku = ''SKU_001'', sale_price = 100, quantity = - 2, discount = 0\<rparr>]\<rparr>]"

definition returnData :: dataset where
  "returnData = \<lparr>data_customers = [\<lparr>customer_key = ''customer_1''\<rparr>, \<lparr>customer_key = ''customer_2''\<rparr>],
                  data_products = sampleProducts, data_sellers = sampleSellers,
                  purchase_records = returnRecords\<rparr>"

definition returnStats :: stats where
  "returnStats =
     \<lparr>sellers =
        [(''seller_1'', \<lparr>s_revenue = - 100, s_profit = - 50,
            s_items = [\<lparr>sku = ''SKU_001'', sale_price = 100, quantity = 1, discount = 0\<rparr>,
                       \<lparr>sku = ''SKU_001'', sale_price = 100, quantity = - 2, discount = 0\<rparr>],
            s_customers = [''customer_1'', ''customer_2'']\<rparr>)],
      customers =
        [(''customer_1'', \<lparr>c_revenue = 100, c_profit = 50, c_sellers = [''seller_1'']\<rparr>),
         (''customer_2'', \<lparr>c_revenue = - 200, c_profit = - 100, c_sellers = [''seller_1'']\<rparr>)],
      products =
        [(''SKU_001'', \<lparr>p_quantity = - 1, p_revenue = - 100\<rparr>)]\<rparr>"

definition returnContext :: rule_context where
  "returnContext = contextFor returnData simpleProfit returnStats"

text \<open>
  A dataset with a tie for the largest sale: the first record with the maximal
  \<^verbatim>\<open>total_amount\<close> belongs to \<open>seller_2\<close>, and \<open>seller_1\<close>, who sold first, reaches the
  same amount later.
\<close>

definition tieRecords :: "purchase_record list" where
  "tieRecords =
     [\<lparr>seller_id = ''seller_1'', customer_id = ''customer_1'', date = ''2024-03-01'',
       total_amount = 50,
       items = [\<lparr>sku = ''SKU_002'', sale_price = 25, quantity = 2, discount = 0\<rparr>]\<rparr>,
      \<lparr>seller_id = ''seller_2'', customer_id = ''customer_1'', date = ''2024-03-02'',
       total_amount = 100,
       items = [\<lparr>sku = ''SKU_001'', sale_price = 100, quantity = 1, discount = 0\<rparr>]\<rparr>,
      \<lparr>seller_id = ''seller_1'', customer_id = ''customer_1'', date = ''2024-03-03'',
       total_amount = 100,
       items = [\<lparr>sku = ''SKU_001'', sale_price = 100, quantity = 1, discount = 0\<rparr>]\<rparr>]"

definition tieData :: dataset where
  "tieData = \<lparr>data_customers = sampleCustomers, data_products = sampleProducts,
               data_sellers = sampleSellers, purchase_records = tieRecords\<rparr>"

definition tieStats :: stats where
  "tieStats =
     \<lparr>sellers =
        [(''seller_1'', \<lparr>s_revenue = 150, s_profit = 60,
            s_items = [\<lparr>sku = ''SKU_002'', sale_price = 25, quantity = 2, discount = 0\<rparr>,
                       \<lparr>sku = ''SKU_001'', sale_price = 100, quantity = 1, discount = 0\<rparr>],
            s_customers = [''customer_1'']\<rparr>),
         (''seller_2'', \<lparr>s_revenue = 100, s_profit = 50,
            s_items = [\<lparr>sku = ''SKU_001'', sale_price = 100, quantity = 1, discount = 0\<rparr>],
            s_customers = [''customer_1'']\<rparr>)],
      customers =
        [(''customer_1'', \<lparr>c_revenue = 250, c_profit = 110,
            c_sellers = [''seller_1'', ''seller_2'']\<rparr>)],
      products =
        [(''SKU_002'', \<lparr>p_quantity = 2, p_revenue = 50\<rparr>),
         (''SKU_001'', \<lparr>p_quantity = 2, p_revenue = 200\<rparr>)]\<rparr>"

definition tieContext :: rule_context where
  "tieContext = contextFor tieData simpleProfit tieStats"

text \<open>
  A profit function that returns for every item: an item without a product costs
  nothing.  The reference \<open>simpleProfit\<close> throws on such an item.
\<close>

definition tolerantProfit :: profitFn where
  "tolerantProfit item product =
     Inr (sale_price item * quantity item * (1 - discount item / 100)
          - (case product of None \<Rightarrow> 0 | Some p \<Rightarrow> purchase_price p * quantity item))"

text \<open>
  A sale whose second item has a sku that is not in the catalog, and its metrics under
  \<open>tolerantProfit\<close>.
\<close>

definition unknownSkuRecords :: "purchase_record list" where
  "unknownSkuRecords =
     [\<lparr>seller_id = ''seller_1'', customer_id = ''customer_1'', date = ''2024-04-01'',
       total_amount = 230,
       items = [\<lparr>sku = ''SKU_001'', sale_price = 100, quantity = 2, discount = 0\<rparr>,
                \<lparr>sku = ''SKU_999'', sale_price = 30, quantity = 1, discount = 0\<rparr>]\<rparr>]"

definition unknownSkuStats :: stats where
  "unknownSkuStats =
     \<lparr>sellers =
        [(''seller_1'', \<lparr>s_revenue = 230, s_profit = 130,
            s_items = [\<lparr>sku = ''SKU_001'', sale_price = 100, quantity = 2, discount = 0\<rparr>,
                       \<lparr>sku = ''SKU_999'', sale_price = 30, quantity = 1, discount = 0\<rparr>],
            s_customers = [''customer_1'']\<rparr>)],
      customers =
        [(''customer_1'', \<lparr>c_revenue = 230, c_profit = 130, c_sellers = [''seller_1'']\<rparr>)],
      products =
        [(''SKU_001'', \<lparr>p_quantity = 2, p_revenue = 200\<rparr>),
         (''SKU_999'', \<lparr>p_quantity = 1, p_revenue = 30\<rparr>)]\<rparr>"

definition unknownSkuData :: dataset where
  "unknownSkuData = \<lparr>data_customers = sampleCustomers, data_products = sampleProducts,
                      data_sellers = sampleSellers, purchase_records = unknownSkuRecords\<rparr>"

text \<open>
  Three sales at the prices 19.99, 5.49 and 0.01, the first and the third by the same
  seller, as the program holds them: every number is the \<open>double\<close> of its literal.
  \<open>tolerantProfitR\<close> is \<open>tolerantProfit\<close> in the arithmetic \<open>rnd\<close>, and \<open>priceStats\<close>
  are the metrics of the three sales in double arithmetic.
\<close>

definition tolerantProfitR :: "(real \<Rightarrow> real) \<Rightarrow> profitFn" where
  "tolerantProfitR rnd item product =
     Inr (rnd (lineRevenueR rnd item
               - (case product of None \<Rightarrow> 0 | Some p \<Rightarrow> rnd (purchase_price p * quantity item))))"




text \<open>
  A catalog whose skus are numerals: one sale of five units of \<open>2\<close>, then five units of
  \<open>1\<close>.
\<close>

definition numericSkuProducts :: "product list" where
  "numericSkuProducts =
     [\<lparr>product_sku = ''2'', purchase_price = 10\<rparr>,
      \<lparr>product_sku = ''1'', purchase_price = 10\<rparr>]"

definition numericSkuRecords :: "purchase_record list" where
  "numericSkuRecords =
     [\<lparr>seller_id = ''seller_1'', customer_id = ''customer_1'', date = ''2024-05-01'',
       total_amount = 200,
       items = [\<lparr>sku = ''2'', sale_price = 20, quantity = 5, discount = 0\<rparr>,
                \<lparr>sku = ''1'', sale_price = 20, quantity = 5, discount = 0\<rparr>]\<rparr>]"

definition oneSeller :: "seller list" where
  "oneSeller =
     [\<lparr>id = ''seller_1'', first_name = ''Anna'', last_name = ''Ivanova'',
       start_date = ''2020-01-01'', position = ''Senior''\<rparr>]"

definition numericSkuArg :: "dataset_arg option" where
  "numericSkuArg = Some \<lparr>arg_customers = Array sampleCustomers,
                         arg_products = Array numericSkuProducts,
                         arg_sellers = Array oneSeller,
                         arg_purchase_records = Array numericSkuRecords\<rparr>"

text \<open>
  A sale in which two products end with the same quantity: two units of \<open>SKU_002\<close>,
  five of \<open>SKU_001\<close>, three more of \<open>SKU_002\<close>; and the report it gives.
\<close>

definition basketRecords :: "purchase_record list" where
  "basketRecords =
     [\<lparr>seller_id = ''seller_1'', customer_id = ''customer_1'', date = ''2024-05-02'',
       total_amount = 650,
       items = [\<lparr>sku = ''SKU_002'', sale_price = 30, quantity = 2, discount = 0\<rparr>,
                \<lparr>sku = ''SKU_001'', sale_price = 100, quantity = 5, discount = 0\<rparr>,
                \<lparr>sku = ''SKU_002'', sale_price = 30, quantity = 3, discount = 0\<rparr>]\<rparr>]"

definition basketData :: dataset where
  "basketData = \<lparr>data_customers = sampleCustomers, data_products = sampleProducts,
                  data_sellers = oneSeller, purchase_records = basketRecords\<rparr>"

definition basketArg :: "dataset_arg option" where
  "basketArg = Some \<lparr>arg_customers = Array sampleCustomers,
                     arg_products = Array sampleProducts,
                     arg_sellers = Array oneSeller,
                     arg_purchase_records = Array basketRecords\<rparr>"

definition basketReport :: report where
  "basketReport =
     \<lparr>report_seller_id = ''seller_1'', name = ''Anna Ivanova'', report_revenue = 650,
      report_profit = 300, report_sales_count = 1,
      top_products = [(''SKU_002'', 5), (''SKU_001'', 5)], report_bonus = 0\<rparr>"


section \<open>Sequence Trend Analyzer: the contract\<close>

lemma stableScan_iff:
  "\<forall>i < length xs. (prev # xs) ! i \<noteq> 0 \<Longrightarrow>
   stableScan prev xs tol =
     (\<forall>i < length xs. \<bar>(prev # xs) ! Suc i - (prev # xs) ! i\<bar> / \<bar>(prev # xs) ! i\<bar> \<le> tol)"
proof (induction xs arbitrary: prev)
  case Nil
  then show ?case by simp
next
  case (Cons x xs)
  have p0: "prev \<noteq> 0" using Cons.prems by (auto dest: spec [of _ 0])
  have nz: "\<forall>i < length xs. (x # xs) ! i \<noteq> 0"
  proof (intro allI impI)
    fix i assume "i < length xs"
    then have "(prev # x # xs) ! Suc i \<noteq> 0" using Cons.prems by (metis Suc_less_eq length_Cons)
    then show "(x # xs) ! i \<noteq> 0" by simp
  qed
  have step: "(\<forall>i < length (x # xs). P i) = (P 0 \<and> (\<forall>i < length xs. P (Suc i)))" for P
    by (auto simp: less_Suc_eq_0_disj)
  show ?case
    unfolding step using p0 Cons.IH [OF nz]
    by (auto simp: relativeChangeExceeds_def not_less)
qed

text \<open>
  C3.  A sequence shorter than 2 gives stable, not increasing, not decreasing, whatever
  the tolerance.  For a sequence of length at least 2 whose elements other than the last
  are nonzero, \<open>isIncreasing\<close> is \<open>last - first > 0\<close>, \<open>isDecreasing\<close> is
  \<open>last - first < 0\<close>, and \<open>isStable\<close> holds exactly when every consecutive pair has
  \<open>|s[i] - s[i-1]| / |s[i-1]| \<le> tolerance\<close>.
\<close>

theorem analyzeSequence_contract:
  "(length s < 2 \<longrightarrow>
      analyzeSequence s tol = \<lparr>isStable = True, isIncreasing = False, isDecreasing = False\<rparr>) \<and>
   (2 \<le> length s \<and> (\<forall>i < length s - 1. s ! i \<noteq> 0) \<longrightarrow>
      isIncreasing (analyzeSequence s tol) = (s ! (length s - 1) - s ! 0 > 0) \<and>
      isDecreasing (analyzeSequence s tol) = (s ! (length s - 1) - s ! 0 < 0) \<and>
      isStable (analyzeSequence s tol) =
        (\<forall>i. 1 \<le> i \<and> i < length s \<longrightarrow> \<bar>s ! i - s ! (i - 1)\<bar> / \<bar>s ! (i - 1)\<bar> \<le> tol))"
proof (intro conjI impI)
  show "length s < 2 \<Longrightarrow>
      analyzeSequence s tol = \<lparr>isStable = True, isIncreasing = False, isDecreasing = False\<rparr>"
    by (simp add: analyzeSequence_def)
next
  assume a: "2 \<le> length s \<and> (\<forall>i < length s - 1. s ! i \<noteq> 0)"
  then obtain x xs where s: "s = x # xs" by (cases s) auto
  show "isIncreasing (analyzeSequence s tol) = (s ! (length s - 1) - s ! 0 > 0)"
    using a by (simp add: analyzeSequence_def Let_def)
  show "isDecreasing (analyzeSequence s tol) = (s ! (length s - 1) - s ! 0 < 0)"
    using a by (simp add: analyzeSequence_def Let_def)
  have nz: "\<forall>i < length xs. (x # xs) ! i \<noteq> 0" using a s by simp
  have "isStable (analyzeSequence s tol) = stableScan x xs tol"
    using a s by (simp add: analyzeSequence_def Let_def)
  also have "\<dots> = (\<forall>i < length xs. \<bar>(x # xs) ! Suc i - (x # xs) ! i\<bar> / \<bar>(x # xs) ! i\<bar> \<le> tol)"
    by (rule stableScan_iff [OF nz])
  also have "\<dots> = (\<forall>i. 1 \<le> i \<and> i < length s \<longrightarrow> \<bar>s ! i - s ! (i - 1)\<bar> / \<bar>s ! (i - 1)\<bar> \<le> tol)"
  proof
    assume h: "\<forall>i < length xs. \<bar>(x # xs) ! Suc i - (x # xs) ! i\<bar> / \<bar>(x # xs) ! i\<bar> \<le> tol"
    show "\<forall>i. 1 \<le> i \<and> i < length s \<longrightarrow> \<bar>s ! i - s ! (i - 1)\<bar> / \<bar>s ! (i - 1)\<bar> \<le> tol"
    proof (intro allI impI)
      fix i assume i: "1 \<le> i \<and> i < length s"
      then obtain j where j: "i = Suc j" by (cases i) auto
      with i s have "j < length xs" by simp
      with h have "\<bar>(x # xs) ! Suc j - (x # xs) ! j\<bar> / \<bar>(x # xs) ! j\<bar> \<le> tol" by blast
      then show "\<bar>s ! i - s ! (i - 1)\<bar> / \<bar>s ! (i - 1)\<bar> \<le> tol" using j s by simp
    qed
  next
    assume h: "\<forall>i. 1 \<le> i \<and> i < length s \<longrightarrow> \<bar>s ! i - s ! (i - 1)\<bar> / \<bar>s ! (i - 1)\<bar> \<le> tol"
    show "\<forall>i < length xs. \<bar>(x # xs) ! Suc i - (x # xs) ! i\<bar> / \<bar>(x # xs) ! i\<bar> \<le> tol"
    proof (intro allI impI)
      fix i assume "i < length xs"
      then have "1 \<le> Suc i \<and> Suc i < length s" using s by simp
      with h have "\<bar>s ! Suc i - s ! (Suc i - 1)\<bar> / \<bar>s ! (Suc i - 1)\<bar> \<le> tol" by blast
      then show "\<bar>(x # xs) ! Suc i - (x # xs) ! i\<bar> / \<bar>(x # xs) ! i\<bar> \<le> tol" using s by simp
    qed
  qed
  finally show "isStable (analyzeSequence s tol) =
        (\<forall>i. 1 \<le> i \<and> i < length s \<longrightarrow> \<bar>s ! i - s ! (i - 1)\<bar> / \<bar>s ! (i - 1)\<bar> \<le> tol)" .
qed

text \<open>
  The contract at the spec's own examples: \<open>[10]\<close>, \<open>[100, 102, 104, 106]\<close> and
  \<open>[100, 200]\<close> with tolerance 0.05.
\<close>

theorem analyzeSequence_contract_witness:
  "analyzeSequence [10] (5 / 100) = \<lparr>isStable = True, isIncreasing = False, isDecreasing = False\<rparr> \<and>
   isIncreasing (analyzeSequence [100, 102, 104, 106] (5 / 100)) \<and>
   \<not> isDecreasing (analyzeSequence [100, 102, 104, 106] (5 / 100)) \<and>
   isStable (analyzeSequence [100, 102, 104, 106] (5 / 100)) \<and>
   \<not> isStable (analyzeSequence [100, 200] (5 / 100))"
proof -
  let ?s = "[100, 102, 104, 106] :: real list"
  let ?u = "[100, 200] :: real list"
  have short: "length [10 :: real] < 2" by simp
  have pre: "2 \<le> length ?s \<and> (\<forall>i < length ?s - 1. ?s ! i \<noteq> 0)"
    by (simp add: less_Suc_eq numeral_3_eq_3)
  have pre2: "2 \<le> length ?u \<and> (\<forall>i < length ?u - 1. ?u ! i \<noteq> 0)"
    by simp
  have all: "(\<forall>i. 1 \<le> i \<and> i < length ?s \<longrightarrow> \<bar>?s ! i - ?s ! (i - 1)\<bar> / \<bar>?s ! (i - 1)\<bar> \<le> 5 / 100)"
    by (simp add: less_Suc_eq numeral_3_eq_3 numeral_2_eq_2 nth_Cons')
  have notall: "\<not> (\<forall>i. 1 \<le> i \<and> i < length ?u \<longrightarrow> \<bar>?u ! i - ?u ! (i - 1)\<bar> / \<bar>?u ! (i - 1)\<bar> \<le> 5 / 100)"
    by (auto intro!: exI [of _ 1])
  from analyzeSequence_contract [of "[10]" "5 / 100"] short
    analyzeSequence_contract [of ?s "5 / 100"] pre all
    analyzeSequence_contract [of ?u "5 / 100"] pre2 notall
  show ?thesis by simp
qed

section \<open>Grouper: key order and buckets\<close>



lemma keys_groupByStep:
  "map fst (groupByStep f acc x) =
     (if f x \<in> fst ` set acc then map fst acc else map fst acc @ [f x])"
proof (cases "map_of acc (f x)")
  case None
  then have n: "f x \<notin> fst ` set acc" by (simp add: map_of_eq_None_iff)
  have "groupByStep f acc x = AList.update (f x) [x] (AList.update (f x) [] acc)"
    using None by (simp add: groupByStep_def Let_def AList.update_conv')
  then show ?thesis using n by (simp add: AList.update_keys)
next
  case (Some b)
  then have n: "f x \<in> fst ` set acc" by (metis map_of_eq_None_iff option.distinct(1))
  have "groupByStep f acc x = AList.update (f x) (b @ [x]) acc"
    using Some by (simp add: groupByStep_def Let_def)
  then show ?thesis using n by (simp add: AList.update_keys)
qed


lemma keys_groupBy_foldl:
  "map fst (foldl (groupByStep f) acc xs) =
     foldl (\<lambda>seen x. if x \<in> set seen then seen else seen @ [x]) (map fst acc) (map f xs)"
proof (induction xs arbitrary: acc)
  case Nil
  show ?case by simp
next
  case (Cons x xs)
  show ?case by (simp only: foldl_Cons list.map Cons.IH keys_groupByStep set_map)
qed

lemma keys_groupBy: "map fst (groupBy xs f) = firstOccurrences (map f xs)"
  by (simp add: groupBy_def firstOccurrences_def keys_groupBy_foldl)

lemma map_of_groupByStep:
  "map_of (groupByStep f acc x) k =
     (if k = f x then Some ((case map_of acc k of None \<Rightarrow> [] | Some b \<Rightarrow> b) @ [x])
      else map_of acc k)"
  by (auto simp: groupByStep_def Let_def AList.update_conv' split: option.splits)

lemma map_of_groupBy_foldl:
  "map_of (foldl (groupByStep f) acc xs) k =
     (if k \<in> f ` set xs \<or> map_of acc k \<noteq> None
      then Some ((case map_of acc k of None \<Rightarrow> [] | Some b \<Rightarrow> b) @ filter (\<lambda>x. f x = k) xs)
      else None)"
proof (induction xs arbitrary: acc)
  case Nil
  show ?case by (auto split: option.splits)
next
  case (Cons x xs)
  show ?case
    by (simp only: foldl_Cons Cons.IH map_of_groupByStep) (auto split: option.splits)
qed

lemma map_of_groupBy:
  "map_of (groupBy xs f) k =
     (if k \<in> f ` set xs then Some (filter (\<lambda>x. f x = k) xs) else None)"
  by (simp add: groupBy_def map_of_groupBy_foldl)

lemma distinct_firstOccurrences_foldl:
  "distinct seen \<Longrightarrow> distinct (foldl (\<lambda>seen x. if x \<in> set seen then seen else seen @ [x]) seen xs)"
  by (induction xs arbitrary: seen) auto

lemma distinct_firstOccurrences: "distinct (firstOccurrences xs)"
  by (simp add: firstOccurrences_def distinct_firstOccurrences_foldl)

lemma set_firstOccurrences_foldl:
  "set (foldl (\<lambda>seen x. if x \<in> set seen then seen else seen @ [x]) seen xs) = set seen \<union> set xs"
  by (induction xs arbitrary: seen) auto

lemma set_firstOccurrences: "set (firstOccurrences xs) = set xs"
  by (simp add: firstOccurrences_def set_firstOccurrences_foldl)

lemma distinct_keys_groupBy: "distinct (map fst (groupBy xs f))"
  by (simp add: keys_groupBy distinct_firstOccurrences)

lemma set_Object_entries: "set (Object_entries obj) = set obj"
  by (auto simp: Object_entries_def)


lemma Object_entries_no_index:
  "\<forall>p \<in> set obj. \<not> isArrayIndex (fst p) \<Longrightarrow> Object_entries obj = obj"
proof -
  assume a: "\<forall>p \<in> set obj. \<not> isArrayIndex (fst p)"
  then have "filter (\<lambda>p. isArrayIndex (fst p)) obj = []" by (auto simp: filter_empty_conv)
  moreover from a have "filter (\<lambda>p. \<not> isArrayIndex (fst p)) obj = obj" by (auto simp: filter_id_conv)
  ultimately show ?thesis by (simp add: Object_entries_def)
qed

lemma map_fst_sort_key: "map fst (sort_key (\<lambda>p. g (fst p)) xs) = sort_key g (map fst xs)"
proof (induction xs)
  case Nil show ?case by simp
next
  case (Cons x xs)
  have ins: "map fst (insort_key (\<lambda>p. g (fst p)) x ys) = insort_key g (fst x) (map fst ys)" for ys
    by (induction ys) auto
  show ?case using Cons by (simp add: ins)
qed

lemma Object_keys_eq:
  "Object_keys obj =
     sort_key (\<lambda>k. the (arrayIndex k)) (filter isArrayIndex (map fst obj))
     @ filter (\<lambda>k. \<not> isArrayIndex k) (map fst obj)"
proof -
  have "map fst (sort_key (\<lambda>p. the (arrayIndex (fst p))) (filter (\<lambda>p. isArrayIndex (fst p)) obj))
        = sort_key (\<lambda>k. the (arrayIndex k)) (map fst (filter (\<lambda>p. isArrayIndex (fst p)) obj))"
    by (rule map_fst_sort_key)
  then show ?thesis
    by (simp add: Object_keys_def Object_entries_def filter_map comp_def)
qed



lemma arrayIndex_2: "arrayIndex ''2'' = Some 2"
  by (simp add: arrayIndex_def isDigit_def digitsValue_def)
lemma arrayIndex_1: "arrayIndex ''1'' = Some 1"
  by (simp add: arrayIndex_def isDigit_def digitsValue_def)


text \<open>
  C6, as the claim states it, fails: the keys \<open>2\<close> and \<open>1\<close>, first seen in this order,
  are enumerated as \<open>1\<close>, \<open>2\<close>.
\<close>

theorem groupBy_order_counterexample:
  "Object_keys (groupBy [''2'', ''1''] (take 7)) \<noteq> firstOccurrences (map (take 7) [''2'', ''1''])"
proof -
  have g: "groupBy [''2'', ''1''] (take 7) = [(''2'', [''2'']), (''1'', [''1''])]"
    by (simp add: groupBy_def groupByStep_def Let_def)
  have k: "Object_keys [(''2'', [''2'']), (''1'', [''1''])] = [''1'', ''2'']"
    by (simp add: Object_keys_def Object_entries_def isArrayIndex_def arrayIndex_2 arrayIndex_1)
  have f: "firstOccurrences [''2'', ''1''] = [''2'', ''1'']"
    by (simp add: firstOccurrences_def)
  show ?thesis by (simp add: g k f)
qed


text \<open>
  C6, amended.  The keys of \<open>groupBy array keyFn\<close> are enumerated with the array-index
  keys first, in ascending numeric order, followed by the other keys in the order of
  their first occurrence in the input.  When no key is an array index, the enumeration
  order is the order of first occurrence.  In every case the bucket of a key holds the
  items with that key in their input order.
\<close>

theorem groupBy_order:
  "Object_keys (groupBy array keyFn) =
     sort_key (\<lambda>k. the (arrayIndex k)) (filter isArrayIndex (firstOccurrences (map keyFn array)))
     @ filter (\<lambda>k. \<not> isArrayIndex k) (firstOccurrences (map keyFn array)) \<and>
   (list_all (\<lambda>x. \<not> isArrayIndex (keyFn x)) array \<longrightarrow>
      Object_keys (groupBy array keyFn) = firstOccurrences (map keyFn array)) \<and>
   (\<forall>entry \<in> set (Object_entries (groupBy array keyFn)).
      snd entry = filter (\<lambda>x. keyFn x = fst entry) array)"
proof (intro conjI impI ballI)
  show g: "Object_keys (groupBy array keyFn) =
     sort_key (\<lambda>k. the (arrayIndex k)) (filter isArrayIndex (firstOccurrences (map keyFn array)))
     @ filter (\<lambda>k. \<not> isArrayIndex k) (firstOccurrences (map keyFn array))"
    by (simp add: Object_keys_eq keys_groupBy)
  show "Object_keys (groupBy array keyFn) = firstOccurrences (map keyFn array)"
    if a: "list_all (\<lambda>x. \<not> isArrayIndex (keyFn x)) array"
  proof -
    have "\<forall>p \<in> set (groupBy array keyFn). \<not> isArrayIndex (fst p)"
    proof
      fix p assume "p \<in> set (groupBy array keyFn)"
      then have "fst p \<in> set (map fst (groupBy array keyFn))" by simp
      then have "fst p \<in> keyFn ` set array" by (simp add: keys_groupBy set_firstOccurrences)
      with a show "\<not> isArrayIndex (fst p)" by (auto simp: list_all_iff)
    qed
    then show ?thesis by (simp add: Object_keys_def Object_entries_no_index keys_groupBy)
  qed
  show "snd entry = filter (\<lambda>x. keyFn x = fst entry) array"
    if e: "entry \<in> set (Object_entries (groupBy array keyFn))" for entry
  proof -
    from e have "entry \<in> set (groupBy array keyFn)" by (simp add: set_Object_entries)
    then have "map_of (groupBy array keyFn) (fst entry) = Some (snd entry)"
      using distinct_keys_groupBy [of array keyFn] by simp
    then show ?thesis by (simp add: map_of_groupBy split: if_splits)
  qed
qed


text \<open>The amended claim at three dated entries grouped by month.\<close>

theorem groupBy_order_witness:
  "list_all (\<lambda>x. \<not> isArrayIndex (take 7 x)) [''2024-02-10'', ''2024-01-05'', ''2024-02-11''] \<and>
   Object_keys (groupBy [''2024-02-10'', ''2024-01-05'', ''2024-02-11''] (take 7))
     = [''2024-02'', ''2024-01''] \<and>
   map snd (Object_entries (groupBy [''2024-02-10'', ''2024-01-05'', ''2024-02-11''] (take 7)))
     = [[''2024-02-10'', ''2024-02-11''], [''2024-01-05'']]"
proof -
  let ?xs = "[''2024-02-10'', ''2024-01-05'', ''2024-02-11'']"
  have h: "list_all (\<lambda>x. \<not> isArrayIndex (take 7 x)) ?xs"
    by (simp add: isArrayIndex_def arrayIndex_def isDigit_def)
  have f: "firstOccurrences (map (take 7) ?xs) = [''2024-02'', ''2024-01'']"
    by (simp add: firstOccurrences_def)
  from groupBy_order [of ?xs "take 7"] h
  have k: "Object_keys (groupBy ?xs (take 7)) = firstOccurrences (map (take 7) ?xs)"
    and b: "\<forall>entry \<in> set (Object_entries (groupBy ?xs (take 7))).
              snd entry = filter (\<lambda>x. take 7 x = fst entry) ?xs"
    by blast+
  from k f have k': "map fst (Object_entries (groupBy ?xs (take 7))) = [''2024-02'', ''2024-01'']"
    by (simp add: Object_keys_def)
  then obtain v1 v2 where e: "Object_entries (groupBy ?xs (take 7)) = [(''2024-02'', v1), (''2024-01'', v2)]"
    by (auto simp: map_eq_Cons_conv)
  from b e have "v1 = [''2024-02-10'', ''2024-02-11'']" "v2 = [''2024-01-05'']" by simp_all
  with h k f e show ?thesis by simp
qed

section \<open>analyzeSalesData: checks of the arguments\<close>

text \<open>
  C4.  \<open>analyzeSalesData\<close> fails with no report whenever a catalog is missing, not an
  array or empty (the first error), or, the dataset being valid, the options are missing
  or not an object, or a strategy is missing or not callable (one of the three other
  errors).  The failure is the result of \<open>checkArguments\<close>, which comes before any
  record is read.  On arguments that meet all conditions \<open>checkArguments\<close> does not fail
  and the computation \<open>salesReport\<close> runs.
\<close>

theorem analyzeSalesData_validation:
  "(invalidDataset data \<longrightarrow>
      checkArguments data options = Inl InvalidData \<and>
      analyzeSalesData data options = Inl InvalidData) \<and>
   (\<not> invalidDataset data \<and> invalidOptions options \<longrightarrow>
      (\<exists>e \<in> {OptionsNotObject, MissingStrategy, StrategyNotFunction}.
         checkArguments data options = Inl e \<and> analyzeSalesData data options = Inl e)) \<and>
   (\<not> invalidDataset data \<and> \<not> invalidOptions options \<longrightarrow>
      (\<exists>d calculateRevenue calculateBonus.
         checkArguments data options = Inr (d, calculateRevenue, calculateBonus) \<and>
         analyzeSalesData data options = salesReport d calculateRevenue calculateBonus))"
proof -
  have A: "checkArguments data options = Inl InvalidData \<and>
      analyzeSalesData data options = Inl InvalidData" if a: "invalidDataset data"
  proof -
  from a have c: "checkArguments data options = Inl InvalidData"
    by (auto simp: invalidDataset_def catalogInvalid_def checkArguments_def isArray_def arrayOf_def
        split: option.splits jsfield.splits)
  then show ?thesis
    by (simp add: analyzeSalesData_def)
  qed
  have B: "\<exists>e \<in> {OptionsNotObject, MissingStrategy, StrategyNotFunction}.
         checkArguments data options = Inl e \<and> analyzeSalesData data options = Inl e"
    if a: "\<not> invalidDataset data \<and> invalidOptions options"
  proof -
  from a obtain d where d: "data = Some d" by (cases data) (auto simp: invalidDataset_def)
  from a d have ok: "\<not> (\<not> isArray (arg_customers d)
             \<or> \<not> isArray (arg_products d)
             \<or> \<not> isArray (arg_sellers d)
             \<or> \<not> isArray (arg_purchase_records d)
             \<or> length (arrayOf (arg_customers d)) = 0
             \<or> length (arrayOf (arg_products d)) = 0
             \<or> length (arrayOf (arg_sellers d)) = 0
             \<or> length (arrayOf (arg_purchase_records d)) = 0)"
    by (auto simp: invalidDataset_def catalogInvalid_def isArray_def arrayOf_def split: jsfield.splits)
  have "\<exists>e \<in> {OptionsNotObject, MissingStrategy, StrategyNotFunction}.
         checkArguments data options = Inl e"
  proof (cases options)
    case NoOptions
    then show ?thesis using d ok by (simp add: checkArguments_def)
  next
    case NotObject
    then show ?thesis using d ok by (simp add: checkArguments_def)
  next
    case (Options r b)
    with a have "\<not> callable r \<or> \<not> callable b" by (simp add: invalidOptions_def)
    then show ?thesis using d ok Options
      by (cases r; cases b) (simp_all add: checkArguments_def callable_def)
  qed
  then show ?thesis
    by (auto simp: analyzeSalesData_def)
  qed
  have C: "\<exists>d calculateRevenue calculateBonus.
         checkArguments data options = Inr (d, calculateRevenue, calculateBonus) \<and>
         analyzeSalesData data options = salesReport d calculateRevenue calculateBonus"
    if a: "\<not> invalidDataset data \<and> \<not> invalidOptions options"
  proof -
  from a obtain d where d: "data = Some d" by (cases data) (auto simp: invalidDataset_def)
  from a d have ok: "\<not> (\<not> isArray (arg_customers d)
             \<or> \<not> isArray (arg_products d)
             \<or> \<not> isArray (arg_sellers d)
             \<or> \<not> isArray (arg_purchase_records d)
             \<or> length (arrayOf (arg_customers d)) = 0
             \<or> length (arrayOf (arg_products d)) = 0
             \<or> length (arrayOf (arg_sellers d)) = 0
             \<or> length (arrayOf (arg_purchase_records d)) = 0)"
    by (auto simp: invalidDataset_def catalogInvalid_def isArray_def arrayOf_def split: jsfield.splits)
  from a obtain r b where o: "options = Options (Fn r) (Fn b)"
    by (cases options; simp add: invalidOptions_def callable_def split: strategy.splits)
  have "checkArguments data options = Inr (\<lparr>data_customers = arrayOf (arg_customers d),
                            data_products = arrayOf (arg_products d),
                            data_sellers = arrayOf (arg_sellers d),
                            purchase_records = arrayOf (arg_purchase_records d)\<rparr>, r, b)"
    using d ok o by (simp add: checkArguments_def)
  then show ?thesis
    by (simp add: analyzeSalesData_def)
  qed
  from A B C show ?thesis by blast
qed

text \<open>
  The theorem at the sample dataset: with an empty product catalog, with no options,
  with a strategy that is not a function, and with valid arguments.
\<close>

theorem analyzeSalesData_validation_witness:
  "analyzeSalesData
     (Some \<lparr>arg_customers = Array sampleCustomers, arg_products = Array [],
            arg_sellers = Array sampleSellers, arg_purchase_records = Array sampleRecords\<rparr>)
     (Options (Fn calculateSimpleRevenue) (Fn calculateBonusByProfit)) = Inl InvalidData \<and>
   analyzeSalesData sampleArg NoOptions
     \<in> {Inl OptionsNotObject, Inl MissingStrategy, Inl StrategyNotFunction} \<and>
   analyzeSalesData sampleArg (Options (Fn calculateSimpleRevenue) NotCallable)
     \<in> {Inl OptionsNotObject, Inl MissingStrategy, Inl StrategyNotFunction} \<and>
   (\<exists>d calculateRevenue calculateBonus.
      checkArguments sampleArg (Options (Fn calculateSimpleRevenue) (Fn calculateBonusByProfit))
        = Inr (d, calculateRevenue, calculateBonus))"
proof -
  let ?bad = "Some \<lparr>arg_customers = Array sampleCustomers, arg_products = Array [],
            arg_sellers = Array sampleSellers, arg_purchase_records = Array sampleRecords\<rparr>"
  let ?opts = "Options (Fn calculateSimpleRevenue) (Fn calculateBonusByProfit)"
  have h1: "invalidDataset ?bad"
    by (simp add: invalidDataset_def catalogInvalid_def)
  have h2: "\<not> invalidDataset sampleArg"
    by (simp add: invalidDataset_def catalogInvalid_def sampleArg_def
        sampleCustomers_def sampleProducts_def sampleSellers_def sampleRecords_def)
  have h3: "invalidOptions NoOptions"
    by (simp add: invalidOptions_def)
  have h4: "invalidOptions (Options (Fn calculateSimpleRevenue) NotCallable)"
    by (simp add: invalidOptions_def callable_def)
  have h5: "\<not> invalidOptions ?opts"
    by (simp add: invalidOptions_def callable_def)
  from analyzeSalesData_validation [of ?bad ?opts] h1
  have a: "analyzeSalesData ?bad ?opts = Inl InvalidData" by blast
  from analyzeSalesData_validation [of sampleArg NoOptions] h2 h3
  have b: "analyzeSalesData sampleArg NoOptions
     \<in> {Inl OptionsNotObject, Inl MissingStrategy, Inl StrategyNotFunction}" by auto
  from analyzeSalesData_validation [of sampleArg "Options (Fn calculateSimpleRevenue) NotCallable"] h2 h4
  have c: "analyzeSalesData sampleArg (Options (Fn calculateSimpleRevenue) NotCallable)
     \<in> {Inl OptionsNotObject, Inl MissingStrategy, Inl StrategyNotFunction}" by auto
  from analyzeSalesData_validation [of sampleArg ?opts] h2 h5
  have d: "\<exists>d calculateRevenue calculateBonus.
      checkArguments sampleArg ?opts = Inr (d, calculateRevenue, calculateBonus)" by blast
  from a b c d show ?thesis by blast
qed

section \<open>analyzeSalesData with the reference bonus strategy\<close>

text \<open>
  \<open>analyzeSalesData\<close> calls \<^verbatim>\<open>calculateBonus(seller, index, sellerStats.length)\<close>, while
  \<open>calculateBonusByProfit\<close> declares \<^verbatim>\<open>(index, total, seller)\<close>.  Injected as it is, the
  strategy compares the seller object with 0, 1, 2 and -1, falls through to the last
  branch, reads \<^verbatim>\<open>profit\<close> of the seller count and returns NaN.
\<close>

lemma sample_index: "sellerIndexOf (initialSellerStats sampleSellers) =
   [(''seller_1'', 0), (''seller_2'', 1), (''seller_3'', 2), (''seller_4'', 3)]"
  by (simp add: sellerIndexOf_def initialSellerStats_def sampleSellers_def Object_fromEntries_def)

lemma sample_pindex: "productIndexOf sampleProducts =
   [(''SKU_001'', \<lparr>product_sku = ''SKU_001'', purchase_price = 50\<rparr>),
    (''SKU_002'', \<lparr>product_sku = ''SKU_002'', purchase_price = 20\<rparr>)]"
  by (simp add: productIndexOf_def sampleProducts_def Object_fromEntries_def)

lemma calculateBonusByProfit_swapped:
  "calculateBonusByProfit (JSeller s) (JNum i) (JNum n) = Inr JNaN"
  by (simp add: calculateBonusByProfit_def profitOf_def jsTimes_def)

lemma calculateBonusByProfit_own_order:
  "calculateBonusByProfit (JNum 0) t (JSeller s) = Inr (JNum (profit s * 0.15))"
  "calculateBonusByProfit (JNum 1) t (JSeller s) = Inr (JNum (profit s * 0.10))"
  "calculateBonusByProfit (JNum 2) t (JSeller s) = Inr (JNum (profit s * 0.10))"
  "calculateBonusByProfit (JNum (- 1)) t (JSeller s) = Inr (JNum 0)"
  "r \<notin> {0, 1, 2, - 1} \<Longrightarrow> calculateBonusByProfit (JNum r) t (JSeller s) = Inr (JNum (profit s * 0.05))"
  by (simp_all add: calculateBonusByProfit_def profitOf_def jsTimes_def)

lemma mapE_total: "(\<And>x. x \<in> set xs \<Longrightarrow> f x = Inr (g x)) \<Longrightarrow> mapE f xs = Inr (map g xs)"
  by (induction xs) simp_all

lemma assignBonuses_swapped:
  "assignBonuses calculateBonusByProfit sellerStats =
     Inr (map (\<lambda>s. (s, JNaN, topProducts s)) sellerStats)"
proof -
  have "assignBonuses calculateBonusByProfit sellerStats =
      Inr (map (\<lambda>p. (snd p, JNaN, topProducts (snd p))) (enumerate 0 sellerStats))"
    unfolding assignBonuses_def
    by (rule mapE_total) (auto simp: calculateBonusByProfit_swapped)
  also have "map (\<lambda>p. (snd p, JNaN, topProducts (snd p))) ys
      = map (\<lambda>s. (s, JNaN, topProducts s)) (map snd ys)" for ys :: "(nat \<times> seller_stat) list"
    by (simp add: comp_def)
  finally show ?thesis by simp
qed

lemma toFixed2_0: "toFixed2 0 = 0"
  by (simp add: toFixed2_def)

lemma salesReport_swapped:
  "salesReport data calcRevenue calculateBonusByProfit =
     Inr (map (\<lambda>s. \<lparr>report_seller_id = sellerId s,
                  name = firstName s @ '' '' @ lastName s,
                  report_revenue = toFixed2 (revenue s),
                  report_profit = toFixed2 (profit s),
                  report_sales_count = sales_count s,
                  top_products = topProducts s,
                  report_bonus = 0\<rparr>)
            (rankSellers (collectSellerStats data calcRevenue)))"
proof -
  have "mapE sellerReport (map (\<lambda>s. (s, JNaN, topProducts s)) xs) =
     Inr (map (\<lambda>s. \<lparr>report_seller_id = sellerId s,
                  name = firstName s @ '' '' @ lastName s,
                  report_revenue = toFixed2 (revenue s),
                  report_profit = toFixed2 (profit s),
                  report_sales_count = sales_count s,
                  top_products = topProducts s,
                  report_bonus = 0\<rparr>) xs)" for xs
    by (induction xs) (simp_all add: sellerReport_def toFixed2_0)
  then show ?thesis by (simp add: salesReport_def assignBonuses_swapped)
qed

lemma toFixed2_int: "toFixed2 (of_int n) = of_int n"
proof -
  have a: "\<lfloor>(of_int n :: real) * 100 + 1 / 2\<rfloor> = n * 100"
    by (simp add: floor_unique)
  have b: "\<lfloor>- (of_int n :: real) * 100 + 1 / 2\<rfloor> = - n * 100"
    by (simp add: floor_unique)
  show ?thesis unfolding toFixed2_def a b by simp
qed

lemma sample_stats: "collectSellerStats sampleData calculateSimpleRevenue =
   [\<lparr>sellerId = ''seller_1'', firstName = ''Anna'', lastName = ''Ivanova'',
      startDate = ''2020-01-01'', sellerPosition = ''Senior'',
      revenue = 200, profit = 100, sales_count = 1, products_sold = [(''SKU_001'', 2)]\<rparr>,
    \<lparr>sellerId = ''seller_2'', firstName = ''Boris'', lastName = ''Petrov'',
      startDate = ''2021-01-01'', sellerPosition = ''Junior'',
      revenue = 90, profit = 30, sales_count = 1, products_sold = [(''SKU_002'', 3)]\<rparr>,
    \<lparr>sellerId = ''seller_3'', firstName = ''Vera'', lastName = ''Orlova'',
      startDate = ''2022-01-01'', sellerPosition = ''Junior'',
      revenue = 60, profit = 20, sales_count = 1, products_sold = [(''SKU_002'', 2)]\<rparr>,
    \<lparr>sellerId = ''seller_4'', firstName = ''Gleb'', lastName = ''Sidorov'',
      startDate = ''2023-01-01'', sellerPosition = ''Trainee'',
      revenue = 25, profit = 5, sales_count = 1, products_sold = [(''SKU_002'', 1)]\<rparr>]"
  unfolding collectSellerStats_def Let_def sampleData_def dataset.simps sample_index sample_pindex
  by (simp add: sampleRecords_def salesRecordStep_def salesItemStep_def Let_def
      initialSellerStats_def sampleSellers_def calculateSimpleRevenue_def)

lemma sample_ranked:
  "rankSellers (collectSellerStats sampleData calculateSimpleRevenue) =
     collectSellerStats sampleData calculateSimpleRevenue"
  unfolding sample_stats by (simp add: rankSellers_def sortBy_def)

lemma arrayIndex_SKU: "arrayIndex (CHR ''S'' # rest) = None"
  by (simp add: arrayIndex_def isDigit_def)

lemma sample_check:
  "checkArguments sampleArg (Options (Fn calculateSimpleRevenue) (Fn calculateBonusByProfit)) =
     Inr (sampleData, calculateSimpleRevenue, calculateBonusByProfit)"
  by (simp add: checkArguments_def sampleArg_def sampleData_def isArray_def arrayOf_def
      sampleCustomers_def sampleProducts_def sampleSellers_def sampleRecords_def)

lemma toFixed2_numeral [simp]: "toFixed2 (numeral k) = numeral k"
  using toFixed2_int [of "numeral k"] by simp

text \<open>
  C2 on the sample dataset (four sellers with profits 100, 30, 20 and 5):
  \<open>analyzeSalesData\<close> with \<open>calculateBonusByProfit\<close> injected reports the bonus 0 for
  every seller, where the claim says 15, 3, 2 and 0.25.
\<close>

theorem rank_bonus_swapped_arguments:
  "analyzeSalesData sampleArg (Options (Fn calculateSimpleRevenue) (Fn calculateBonusByProfit)) =
     Inr [\<lparr>report_seller_id = ''seller_1'', name = ''Anna Ivanova'', report_revenue = 200,
            report_profit = 100, report_sales_count = 1, top_products = [(''SKU_001'', 2)],
            report_bonus = 0\<rparr>,
          \<lparr>report_seller_id = ''seller_2'', name = ''Boris Petrov'', report_revenue = 90,
            report_profit = 30, report_sales_count = 1, top_products = [(''SKU_002'', 3)],
            report_bonus = 0\<rparr>,
          \<lparr>report_seller_id = ''seller_3'', name = ''Vera Orlova'', report_revenue = 60,
            report_profit = 20, report_sales_count = 1, top_products = [(''SKU_002'', 2)],
            report_bonus = 0\<rparr>,
          \<lparr>report_seller_id = ''seller_4'', name = ''Gleb Sidorov'', report_revenue = 25,
            report_profit = 5, report_sales_count = 1, top_products = [(''SKU_002'', 1)],
            report_bonus = 0\<rparr>]"
  unfolding analyzeSalesData_def sample_check sum.case prod.case salesReport_swapped sample_ranked
  unfolding sample_stats
  by (simp add: topProducts_def Object_entries_def isArrayIndex_def arrayIndex_SKU sortBy_def)

section \<open>Stable Growth: no winner\<close>

lemma foldE_unchanged:
  "(\<And>x. x \<in> set xs \<Longrightarrow> f acc x = Inr acc) \<Longrightarrow> foldE f acc xs = Inr acc"
  by (induction xs) simp_all

text \<open>
  The \<^verbatim>\<open>reduce\<close> of the rule keeps its seed \<^verbatim>\<open>null\<close> when the sequence of monthly average
  profits of every seller is computed and none of them is both stable and increasing
  under tolerance 0.05; the rule then returns the category \<open>Stable Growth\<close>, an undefined
  seller id and the bonus 0.  The sequences are computed when the profit function returns
  on every item it is called with.
\<close>

lemma bonusStableGrowth_keeps_seed:
  "(\<forall>entry \<in> set (Object_entries (recordsBySeller ctx)).
      \<exists>averages.
        monthlyAverages dateOf (calculateProfit ctx) (ctx_products ctx) (snd entry) = Inr averages \<and>
        \<not> (isStable (analyzeSequence averages (5 / 100)) \<and>
           isIncreasing (analyzeSequence averages (5 / 100))))
   \<Longrightarrow> bonusStableGrowth dateOf ctx =
         Inr \<lparr>category = ''Stable Growth'', result_seller_id = None, bonus = 0\<rparr>"
proof -
  assume a: "\<forall>entry \<in> set (Object_entries (recordsBySeller ctx)).
      \<exists>averages.
        monthlyAverages dateOf (calculateProfit ctx) (ctx_products ctx) (snd entry) = Inr averages \<and>
        \<not> (isStable (analyzeSequence averages (5 / 100)) \<and>
           isIncreasing (analyzeSequence averages (5 / 100)))"
  have "foldE (stableGrowthStep dateOf (calculateProfit ctx) (ctx_products ctx)) None
          (Object_entries (recordsBySeller ctx)) = Inr None"
  proof (rule foldE_unchanged)
    fix entry assume "entry \<in> set (Object_entries (recordsBySeller ctx))"
    with a obtain averages where
      m: "monthlyAverages dateOf (calculateProfit ctx) (ctx_products ctx) (snd entry) = Inr averages"
      and n: "\<not> (isStable (analyzeSequence averages (5 / 100)) \<and>
           isIncreasing (analyzeSequence averages (5 / 100)))"
      by blast
    show "stableGrowthStep dateOf (calculateProfit ctx) (ctx_products ctx) None entry = Inr None"
      using n by (simp add: stableGrowthStep_def m Let_def)
  qed
  then show ?thesis by (simp add: bonusStableGrowth_def toFixed2_0)
qed

text \<open>The rule context of the sample dataset, on which the reference metrics are run.\<close>

lemma sample_bySeller: "groupBy sampleRecords seller_id =
  [(''seller_1'', [sampleRecords ! 0]), (''seller_2'', [sampleRecords ! 1]),
   (''seller_3'', [sampleRecords ! 2]), (''seller_4'', [sampleRecords ! 3])]"
  by (simp add: groupBy_def groupByStep_def Let_def sampleRecords_def)

lemma arrayIndex_letter: "\<not> isDigit c \<Longrightarrow> arrayIndex (c # rest) = None"
  by (simp add: arrayIndex_def)

lemma sample_bySeller_entries: "Object_entries (groupBy sampleRecords seller_id) =
  groupBy sampleRecords seller_id"
  unfolding sample_bySeller
  by (simp add: Object_entries_def isArrayIndex_def arrayIndex_letter isDigit_def)

text \<open>The records of a seller who sold once: one month, whatever the date parser.\<close>

lemma monthlyAverages_single:
  "monthlyAverages dateOf calcProfit prods [r] =
     (case mapE (\<lambda>item. calcProfit item (findProduct prods (sku item)))
        (items r) of Inl e \<Rightarrow> Inl e | Inr profits \<Rightarrow> Inr [calculateAverage profits])"
proof -
  have g: "groupBy [r] (\<lambda>record. take 7 (date record)) = [(take 7 (date r), [r])]"
    by (simp add: groupBy_def groupByStep_def Let_def)
  have e: "Object_entries [(take 7 (date r), [r])] = [(take 7 (date r), [r])]"
    by (simp add: Object_entries_def)
  show ?thesis
    unfolding monthlyAverages_def Let_def g e
    by (simp add: sortBy_def split: sum.splits)
qed

lemma sample_find:
  "findProduct sampleProducts ''SKU_001'' = Some \<lparr>product_sku = ''SKU_001'', purchase_price = 50\<rparr>"
  "findProduct sampleProducts ''SKU_002'' = Some \<lparr>product_sku = ''SKU_002'', purchase_price = 20\<rparr>"
  by (simp_all add: findProduct_def sampleProducts_def)

lemma sample_metrics:
  "baseMetrics sampleRecords simpleProfit sampleProducts = Inr sampleStats"
  by (simp add: baseMetrics_def sampleRecords_def metricsRecordStep_def metricsItemStep_def
      openBuckets_def accumulateItem_def
      sellerItem_def customerItem_def productItem_def Let_def sample_find simpleProfit_def setAdd_def sampleStats_def)

text \<open>
  In the sample dataset every seller sold in one month only, so no sequence is
  increasing, and the rule returns no winner.
\<close>

lemma sample_no_winner:
  "\<exists>ctx. ruleContext sampleData simpleProfit baseMetrics = Inr ctx \<and>
         bonusStableGrowth dateOf ctx =
           Inr \<lparr>category = ''Stable Growth'', result_seller_id = None, bonus = 0\<rparr>"
proof -
  obtain st where st: "baseMetrics sampleRecords simpleProfit sampleProducts = Inr st"
    using sample_metrics by blast
  define ctx where "ctx = contextFor sampleData simpleProfit st"
  have c: "ruleContext sampleData simpleProfit baseMetrics = Inr ctx"
    by (simp add: ruleContext_def sampleData_def st ctx_def)
  have sel: "recordsBySeller ctx = groupBy sampleRecords seller_id"
    "calculateProfit ctx = simpleProfit" "ctx_products ctx = sampleProducts"
    by (simp_all add: ctx_def contextFor_def sampleData_def)
  have h: "\<forall>entry \<in> set (Object_entries (recordsBySeller ctx)).
      \<exists>averages.
        monthlyAverages dateOf (calculateProfit ctx) (ctx_products ctx) (snd entry) = Inr averages \<and>
        \<not> (isStable (analyzeSequence averages (5 / 100)) \<and>
           isIncreasing (analyzeSequence averages (5 / 100)))"
    unfolding sel sample_bySeller_entries
    unfolding sample_bySeller
    by (simp add: monthlyAverages_single sampleRecords_def sample_find simpleProfit_def
        analyzeSequence_def)
  from bonusStableGrowth_keeps_seed [OF h] c show ?thesis by blast
qed

text \<open>
  The rule context of the sale with the unknown sku \<open>SKU_999\<close>: one seller, who sold in
  one month.
\<close>

lemma unknown_find:
  "findProduct sampleProducts ''SKU_999'' = None"
  by (simp add: findProduct_def sampleProducts_def)

lemma unknown_bySeller:
  "Object_entries (recordsBySeller (contextFor unknownSkuData calcProfit st)) =
     [(''seller_1'', unknownSkuRecords)]"
  by (simp add: contextFor_def unknownSkuData_def unknownSkuRecords_def groupBy_def
      groupByStep_def Let_def Object_entries_def isArrayIndex_def arrayIndex_letter isDigit_def)

lemma unknown_averages:
  "monthlyAverages dateOf tolerantProfit sampleProducts unknownSkuRecords = Inr [65]"
  "monthlyAverages dateOf simpleProfit sampleProducts unknownSkuRecords = Inl TypeError"
  unfolding unknownSkuRecords_def monthlyAverages_single
  by (simp_all add: sample_find unknown_find tolerantProfit_def simpleProfit_def
      calculateAverage_def)

lemma unknown_context:
  "calculateProfit (contextFor unknownSkuData calcProfit st) = calcProfit"
  "ctx_products (contextFor unknownSkuData calcProfit st) = sampleProducts"
  by (simp_all add: contextFor_def unknownSkuData_def)

text \<open>
  C9.  The claim: whenever no seller's sequence of monthly average profits is both
  stable and increasing, \<open>bonusStableGrowth\<close> ends without an error and returns the
  category \<open>Stable Growth\<close>, an undefined seller id and the bonus 0.  The code at the
  sale with the unknown sku: the only seller sold in one month, so the sequence has one
  element (65 under \<open>tolerantProfit\<close>) and is not increasing, and with a profit function
  that returns the rule gives that result.  With the reference \<open>simpleProfit\<close> the rule
  throws: it passes the \<^verbatim>\<open>undefined\<close> of \<^verbatim>\<open>products.find\<close> to the profit function, as
  \<open>baseMetrics\<close> does, where the loop of \<open>analyzeSalesData\<close> has the guard
  \<^verbatim>\<open>if (product)\<close>.  It holds for every date parser and for whatever metrics the
  context carries.
\<close>

theorem bonusStableGrowth_unknown_sku:
  "monthlyAverages dateOf tolerantProfit sampleProducts unknownSkuRecords = Inr [65] \<and>
   bonusStableGrowth dateOf (contextFor unknownSkuData tolerantProfit st) =
     Inr \<lparr>category = ''Stable Growth'', result_seller_id = None, bonus = 0\<rparr> \<and>
   monthlyAverages dateOf simpleProfit sampleProducts unknownSkuRecords = Inl TypeError \<and>
   bonusStableGrowth dateOf (contextFor unknownSkuData simpleProfit st) = Inl TypeError"
proof -
  have r: "bonusStableGrowth dateOf (contextFor unknownSkuData tolerantProfit st) =
     Inr \<lparr>category = ''Stable Growth'', result_seller_id = None, bonus = 0\<rparr>"
    by (rule bonusStableGrowth_keeps_seed)
      (simp add: unknown_bySeller unknown_context unknown_averages(1) analyzeSequence_def)
  have t: "bonusStableGrowth dateOf (contextFor unknownSkuData simpleProfit st) = Inl TypeError"
    by (simp add: bonusStableGrowth_def unknown_bySeller unknown_context stableGrowthStep_def
        unknown_averages(2))
  from r t show ?thesis by (simp add: unknown_averages)
qed

section \<open>Reduces seeded with null\<close>

text \<open>
  The rules find an extremum with a \<^verbatim>\<open>reduce\<close> seeded with \<^verbatim>\<open>null\<close>: a candidate
  replaces the best so far when its metric is strictly greater than the metric of the
  best so far, or than 0 while there is none.  The lemmas are about any such fold.
\<close>

lemma fold_best_invariant:
  assumes step: "\<And>best x. x \<in> set xs \<Longrightarrow>
      f best x = (case m x of None \<Rightarrow> best
                  | Some v \<Rightarrow> if v > (case best of None \<Rightarrow> 0 | Some b \<Rightarrow> w b)
                              then Some (mk x v) else best)"
    and w: "\<And>x v. m x = Some v \<Longrightarrow> w (mk x v) = v"
    and init: "case init of None \<Rightarrow> True | Some b \<Rightarrow> w b > 0"
  shows "(foldl f init xs = None) =
      (init = None \<and> (\<forall>x \<in> set xs. \<forall>v. m x = Some v \<longrightarrow> v \<le> (0::real)))"
  using step init
proof (induction xs arbitrary: init)
  case Nil
  then show ?case by simp
next
  case (Cons x xs)
  have fx: "f init x = (case m x of None \<Rightarrow> init
                  | Some v \<Rightarrow> if v > (case init of None \<Rightarrow> 0 | Some b \<Rightarrow> w b)
                              then Some (mk x v) else init)"
    by (rule Cons.prems(1)) simp
  have inv: "case f init x of None \<Rightarrow> True | Some b \<Rightarrow> w b > 0"
    using Cons.prems(2) unfolding fx
    by (auto simp: w split: option.splits)
  have IH: "(foldl f (f init x) xs = None) =
      (f init x = None \<and> (\<forall>x \<in> set xs. \<forall>v. m x = Some v \<longrightarrow> v \<le> 0))"
    by (rule Cons.IH [OF _ inv]) (rule Cons.prems(1), simp)
  have none: "(f init x = None) = (init = None \<and> (\<forall>v. m x = Some v \<longrightarrow> v \<le> 0))"
    using Cons.prems(2) unfolding fx by (auto split: option.splits)
  show ?case unfolding foldl_Cons IH none by auto
qed

lemma fold_best_None_iff:
  assumes "\<And>best x. x \<in> set xs \<Longrightarrow>
      f best x = (case m x of None \<Rightarrow> best
                  | Some v \<Rightarrow> if v > (case best of None \<Rightarrow> 0 | Some b \<Rightarrow> w b)
                              then Some (mk x v) else best)"
    and "\<And>x v. m x = Some v \<Longrightarrow> w (mk x v) = v"
  shows "(foldl f None xs = None) = (\<forall>x \<in> set xs. \<forall>v. m x = Some v \<longrightarrow> v \<le> (0::real))"
  using fold_best_invariant [where xs = xs and f = f and m = m and w = w and mk = mk and init = None]
    assms by simp

lemma bestCustomerOf_None_iff:
  "(bestCustomerOf st = None) = (\<forall>entry \<in> set (customers st). c_revenue (snd entry) \<le> 0)"
proof -
  have "(bestCustomerOf st = None) =
      (\<forall>x \<in> set (Object_entries (customers st)). \<forall>v. Some (c_revenue (snd x)) = Some v \<longrightarrow> v \<le> 0)"
    unfolding bestCustomerOf_def
    by (rule fold_best_None_iff [where w = "\<lambda>b. c_revenue (snd b)" and mk = "\<lambda>x v. x"])
       (auto split: prod.splits)
  then show ?thesis by (simp add: set_Object_entries)
qed

lemma topSellerOf_None_iff:
  "(topSellerOf st sellerIds = None) =
     (\<forall>sellerId \<in> set sellerIds. sellerRevenueOr0 st sellerId \<le> 0)"
proof -
  have "(topSellerOf st sellerIds = None) =
      (\<forall>x \<in> set sellerIds. \<forall>v.
          Some (sellerRevenueOr0 st x) = Some v \<longrightarrow> v \<le> 0)"
    unfolding topSellerOf_def
    by (rule fold_best_None_iff [where w = snd and mk = "\<lambda>x v. (x, v)"])
       (auto simp: Let_def)
  then show ?thesis by simp
qed

lemma Math_max_Some_pos:
  "(\<exists>v. Math_max xs = Some v \<and> v > 0) = (\<exists>x \<in> set xs. x > 0)"
proof (induction xs)
  case Nil
  show ?case by simp
next
  case (Cons x xs)
  show ?case
  proof (cases "Math_max xs")
    case None
    then have "xs = []" by (cases xs) (auto split: option.splits)
    with None show ?thesis by simp
  next
    case (Some m)
    with Cons have "(m > 0) = (\<exists>x \<in> set xs. x > 0)" by simp
    with Some show ?thesis by (auto simp: max_def)
  qed
qed

lemma bestRetentionOf_None_iff:
  "(bestRetentionOf st = None) =
     (\<forall>entry \<in> set (sellers st). \<forall>customerId \<in> set (s_customers (snd entry)).
        customerRevenueOr0 st customerId \<le> 0)"
proof -
  let ?rev = "customerRevenueOr0 st"
  have "(bestRetentionOf st = None) =
      (\<forall>x \<in> set (Object_entries (sellers st)). \<forall>v.
          Math_max (map ?rev (s_customers (snd x))) = Some v \<longrightarrow> v \<le> 0)"
    unfolding bestRetentionOf_def
    by (rule fold_best_None_iff [where w = snd and mk = "\<lambda>x v. (fst x, v)"])
       (auto simp: Let_def split: prod.splits option.splits)
  also have "\<dots> = (\<forall>x \<in> set (sellers st). \<not> (\<exists>v. Math_max (map ?rev (s_customers (snd x))) = Some v \<and> v > 0))"
    by (auto simp: set_Object_entries not_less)
  also have "\<dots> = (\<forall>x \<in> set (sellers st). \<forall>customerId \<in> set (s_customers (snd x)). ?rev customerId \<le> 0)"
    unfolding Math_max_Some_pos by (auto simp: not_less)
  finally show ?thesis .
qed

lemma bestAverageOf_None_iff:
  "(bestAverageOf st = None) =
     (\<forall>entry \<in> set (sellers st). averageProfitOf (snd entry) \<le> 0)"
proof -
  have "(bestAverageOf st = None) =
      (\<forall>x \<in> set (Object_entries (sellers st)). \<forall>v.
          Some (averageProfitOf (snd x)) = Some v \<longrightarrow> v \<le> 0)"
    unfolding bestAverageOf_def
    by (rule fold_best_None_iff [where w = snd and mk = "\<lambda>x v. (fst x, v)"])
       (auto simp: Let_def split: prod.splits)
  then show ?thesis by (simp add: set_Object_entries)
qed

lemma largestRecordOf_None_iff:
  "(largestRecordOf records = None) = (\<forall>r \<in> set records. total_amount r \<le> 0)"
proof -
  have "(largestRecordOf records = None) =
      (\<forall>x \<in> set records. \<forall>v. Some (total_amount x) = Some v \<longrightarrow> v \<le> 0)"
    unfolding largestRecordOf_def
    by (rule fold_best_None_iff [where w = total_amount and mk = "\<lambda>x v. x"]) auto
  then show ?thesis by simp
qed

lemma fold_best_Some_general:
  assumes step: "\<And>best x. x \<in> set xs \<Longrightarrow>
      f best x = (case m x of None \<Rightarrow> best
                  | Some v \<Rightarrow> if v > (case best of None \<Rightarrow> 0 | Some b \<Rightarrow> w b)
                              then Some (mk x v) else best)"
    and w: "\<And>x v. m x = Some v \<Longrightarrow> w (mk x v) = (v::real)"
    and init: "case init of None \<Rightarrow> True | Some b \<Rightarrow> w b > 0"
    and res: "foldl f init xs = Some b"
  shows "(init = Some b \<or> (\<exists>x \<in> set xs. \<exists>v. m x = Some v \<and> b = mk x v)) \<and>
         w b > 0 \<and>
         (\<forall>y \<in> set xs. \<forall>u. m y = Some u \<longrightarrow> u \<le> w b) \<and>
         (\<forall>i. init = Some i \<longrightarrow> w i \<le> w b)"
  using step init res
proof (induction xs arbitrary: init)
  case Nil
  then show ?case by auto
next
  case (Cons x xs)
  have fx: "f init x = (case m x of None \<Rightarrow> init
                  | Some v \<Rightarrow> if v > (case init of None \<Rightarrow> 0 | Some b \<Rightarrow> w b)
                              then Some (mk x v) else init)"
    by (rule Cons.prems(1)) simp
  have inv: "case f init x of None \<Rightarrow> True | Some b \<Rightarrow> w b > 0"
    using Cons.prems(2) unfolding fx
    by (auto simp: w split: option.splits)
  have r: "foldl f (f init x) xs = Some b" using Cons.prems(3) by simp
  have IH: "(f init x = Some b \<or> (\<exists>x \<in> set xs. \<exists>v. m x = Some v \<and> b = mk x v)) \<and>
         w b > 0 \<and>
         (\<forall>y \<in> set xs. \<forall>u. m y = Some u \<longrightarrow> u \<le> w b) \<and>
         (\<forall>i. f init x = Some i \<longrightarrow> w i \<le> w b)"
    by (rule Cons.IH [OF _ inv r]) (rule Cons.prems(1), simp)
  show ?case
  proof (cases "m x")
    case None
    then have "f init x = init" by (simp add: fx)
    with IH None show ?thesis by auto
  next
    case (Some v)
    show ?thesis
    proof (cases "v > (case init of None \<Rightarrow> 0 | Some b \<Rightarrow> w b)")
      case True
      then have e: "f init x = Some (mk x v)" by (simp add: fx Some)
      have wv: "w (mk x v) = v" by (rule w [OF Some])
      from IH e wv have le: "v \<le> w b" by simp
      from IH e have 1: "init = Some b \<or> (\<exists>y \<in> set (x # xs). \<exists>u. m y = Some u \<and> b = mk y u)"
        using Some by auto
      have 3: "\<forall>y \<in> set (x # xs). \<forall>u. m y = Some u \<longrightarrow> u \<le> w b"
        using IH Some le by auto
      have 4: "\<forall>i. init = Some i \<longrightarrow> w i \<le> w b"
        using True le by auto
      from 1 3 4 IH show ?thesis by blast
    next
      case False
      then have e: "f init x = init" by (simp add: fx Some)
      from False Cons.prems(2) IH e have le: "v \<le> w b"
        by (cases init) auto
      have 3: "\<forall>y \<in> set (x # xs). \<forall>u. m y = Some u \<longrightarrow> u \<le> w b"
        using IH Some le by auto
      from IH e 3 show ?thesis by auto
    qed
  qed
qed

lemma fold_best_Some:
  assumes "\<And>best x. x \<in> set xs \<Longrightarrow>
      f best x = (case m x of None \<Rightarrow> best
                  | Some v \<Rightarrow> if v > (case best of None \<Rightarrow> 0 | Some b \<Rightarrow> w b)
                              then Some (mk x v) else best)"
    and "\<And>x v. m x = Some v \<Longrightarrow> w (mk x v) = (v::real)"
    and "foldl f None xs = Some b"
  shows "(\<exists>x \<in> set xs. \<exists>v. m x = Some v \<and> b = mk x v) \<and> w b > 0 \<and>
         (\<forall>y \<in> set xs. \<forall>u. m y = Some u \<longrightarrow> u \<le> w b)"
  using fold_best_Some_general [where xs = xs and f = f and m = m and w = w and mk = mk
      and init = None and b = b] assms by simp

lemma largestRecordOf_Some:
  assumes "largestRecordOf records = Some r"
  shows "r \<in> set records \<and> total_amount r > 0 \<and> (\<forall>x \<in> set records. total_amount x \<le> total_amount r)"
proof -
  have "(\<exists>x \<in> set records. \<exists>v. Some (total_amount x) = Some v \<and> r = x) \<and> total_amount r > 0 \<and>
         (\<forall>y \<in> set records. \<forall>u. Some (total_amount y) = Some u \<longrightarrow> u \<le> total_amount r)"
    by (rule fold_best_Some [where f = "\<lambda>recordMax record.
              if total_amount record > (case recordMax of None \<Rightarrow> 0 | Some m \<Rightarrow> total_amount m)
              then Some record else recordMax" and mk = "\<lambda>x v. x"])
       (use assms in \<open>auto simp: largestRecordOf_def\<close>)
  then show ?thesis by auto
qed

lemma largestSaleOf_step:
  "(\<lambda>mx (sellerId, records).
              (case largestRecordOf records of
                 None \<Rightarrow> mx
               | Some largestRecord \<Rightarrow>
                   if total_amount largestRecord > (case mx of None \<Rightarrow> 0 | Some m \<Rightarrow> total_amount m)
                   then Some largestRecord else mx)) best x =
   (case map_option total_amount (largestRecordOf (snd x)) of None \<Rightarrow> best
    | Some v \<Rightarrow> if v > (case best of None \<Rightarrow> 0 | Some b \<Rightarrow> total_amount b)
                then Some (the (largestRecordOf (snd x))) else best)"
  by (cases x) (auto split: option.splits)

lemma largestSaleOf_Some:
  assumes "largestSaleOf bySeller = Some h"
  shows "(\<exists>entry \<in> set bySeller. largestRecordOf (snd entry) = Some h) \<and>
         (\<forall>entry \<in> set bySeller. \<forall>h'. largestRecordOf (snd entry) = Some h' \<longrightarrow>
              total_amount h' \<le> total_amount h)"
proof -
  let ?m = "\<lambda>x. map_option total_amount (largestRecordOf (snd x))"
  let ?mk = "\<lambda>x (v::real). the (largestRecordOf (snd x))"
  have "(\<exists>x \<in> set (Object_entries bySeller). \<exists>v. ?m x = Some v \<and> h = ?mk x v) \<and>
        total_amount h > 0 \<and>
        (\<forall>y \<in> set (Object_entries bySeller). \<forall>u. ?m y = Some u \<longrightarrow> u \<le> total_amount h)"
    by (rule fold_best_Some [where mk = ?mk, OF largestSaleOf_step])
       (use assms in \<open>auto simp: largestSaleOf_def\<close>)
  then have ex: "\<exists>x \<in> set bySeller. \<exists>v. ?m x = Some v \<and> h = ?mk x v"
    and le: "\<forall>y \<in> set bySeller. \<forall>u. ?m y = Some u \<longrightarrow> u \<le> total_amount h"
    by (simp_all add: set_Object_entries)
  from ex obtain x v where x: "x \<in> set bySeller" "?m x = Some v" "h = ?mk x v" by blast
  from x(2) obtain z where z: "largestRecordOf (snd x) = Some z" by auto
  with x(3) have "largestRecordOf (snd x) = Some h" by simp
  with x(1) have 1: "\<exists>entry \<in> set bySeller. largestRecordOf (snd entry) = Some h" by blast
  have 2: "total_amount h' \<le> total_amount h"
    if "entry \<in> set bySeller" "largestRecordOf (snd entry) = Some h'" for entry h'
  proof -
    from that(2) have "?m entry = Some (total_amount h')" by simp
    with le that(1) show ?thesis by blast
  qed
  from 1 2 show ?thesis by blast
qed

lemma largestSaleOf_None_iff:
  "(largestSaleOf bySeller = None) =
     (\<forall>entry \<in> set bySeller. \<forall>r \<in> set (snd entry). total_amount r \<le> 0)"
proof -
  let ?m = "\<lambda>x. map_option total_amount (largestRecordOf (snd x))"
  let ?mk = "\<lambda>x (v::real). the (largestRecordOf (snd x))"
  have "(largestSaleOf bySeller = None) =
      (\<forall>x \<in> set (Object_entries bySeller). \<forall>v. ?m x = Some v \<longrightarrow> v \<le> 0)"
    unfolding largestSaleOf_def
    by (rule fold_best_None_iff [where mk = ?mk and w = total_amount, OF largestSaleOf_step]) auto
  also have "\<dots> = (\<forall>x \<in> set bySeller. largestRecordOf (snd x) = None)"
  proof -
    have eq: "(\<forall>v. ?m x = Some v \<longrightarrow> v \<le> 0) = (largestRecordOf (snd x) = None)" for x
    proof (cases "largestRecordOf (snd x)")
      case None
      then show ?thesis by simp
    next
      case (Some z)
      with largestRecordOf_Some [OF Some] show ?thesis by simp
    qed
    show ?thesis by (simp only: eq set_Object_entries)
  qed
  finally show ?thesis by (simp add: largestRecordOf_None_iff)
qed

section \<open>The four rules that dereference the result of the reduce\<close>

lemma return_metrics:
  "baseMetrics returnRecords simpleProfit sampleProducts = Inr returnStats"
  by (simp add: baseMetrics_def returnRecords_def metricsRecordStep_def metricsItemStep_def
      openBuckets_def accumulateItem_def
      sellerItem_def customerItem_def productItem_def Let_def sample_find simpleProfit_def setAdd_def returnStats_def)

lemma return_context:
  "ruleContext returnData simpleProfit baseMetrics = Inr returnContext"
  by (simp add: ruleContext_def returnData_def return_metrics returnContext_def)

lemma sample_context:
  "ruleContext sampleData simpleProfit baseMetrics = Inr sampleContext"
  by (simp add: ruleContext_def sampleData_def sample_metrics sampleContext_def)

lemma Object_entries_letters:
  "\<forall>p \<in> set obj. \<exists>c rest. fst p = c # rest \<and> \<not> isDigit c \<Longrightarrow> Object_entries obj = obj"
  by (rule Object_entries_no_index) (auto simp: isArrayIndex_def arrayIndex_letter)

lemma return_bestCustomer:
  "bestCustomerOf returnStats =
     Some (''customer_1'', \<lparr>c_revenue = 100, c_profit = 50, c_sellers = [''seller_1'']\<rparr>)"
proof -
  have e: "Object_entries (customers returnStats) = customers returnStats"
    by (rule Object_entries_letters) (simp add: returnStats_def isDigit_def)
  show ?thesis unfolding bestCustomerOf_def e by (simp add: returnStats_def)
qed

text \<open>
  C10, as the claim states it, fails for \<open>bonusBestCustomer\<close>: in the dataset with a
  return, \<open>customer_1\<close> has the revenue 100, yet the rule fails with a null dereference,
  because the only seller of that customer has the seller-level revenue -100 and the
  second reduce keeps its null seed.
\<close>

theorem null_seeded_reduce_rules_counterexample:
  "ruleContext returnData simpleProfit baseMetrics = Inr returnContext \<and>
   0 < c_revenue (snd (hd (customers (stats returnContext)))) \<and>
   bonusBestCustomer returnContext = Inl TypeError"
proof -
  have s: "stats returnContext = returnStats" by (simp add: returnContext_def contextFor_def)
  have p: "0 < c_revenue (snd (hd (customers (stats returnContext))))"
    by (simp add: s returnStats_def)
  have t: "topSellerOf returnStats [''seller_1''] = None"
    by (simp add: topSellerOf_def sellerRevenueOr0_def returnStats_def)
  have "bonusBestCustomer returnContext = Inl TypeError"
    by (simp add: bonusBestCustomer_def s return_bestCustomer t)
  with return_context p show ?thesis by simp
qed

text \<open>
  C10, amended.  \<open>bonusCustomerRetention\<close>, \<open>bonusLargestSingleSale\<close> and
  \<open>bonusHighestAverageProfit\<close> fail with a null dereference when no candidate has a
  strictly positive metric, and return a result when some candidate has one.
  \<open>bonusBestCustomer\<close> has two such reduces: it fails when no customer has a strictly
  positive revenue, and also when the best customer has no seller with a strictly
  positive seller-level revenue; it returns a result when both reduces find a strictly
  positive candidate.
\<close>

theorem null_seeded_reduce_rules:
  "((\<forall>entry \<in> set (customers (stats ctx)). c_revenue (snd entry) \<le> 0) \<longrightarrow>
      bonusBestCustomer ctx = Inl TypeError) \<and>
   ((\<exists>entry \<in> set (customers (stats ctx)). c_revenue (snd entry) > 0) \<longrightarrow>
      (\<exists>bestCustomer. bestCustomerOf (stats ctx) = Some bestCustomer \<and>
         ((\<forall>sellerId \<in> set (c_sellers (snd bestCustomer)). sellerRevenueOr0 (stats ctx) sellerId \<le> 0) \<longrightarrow>
            bonusBestCustomer ctx = Inl TypeError) \<and>
         ((\<exists>sellerId \<in> set (c_sellers (snd bestCustomer)). sellerRevenueOr0 (stats ctx) sellerId > 0) \<longrightarrow>
            (\<exists>result. bonusBestCustomer ctx = Inr result)))) \<and>
   ((\<forall>entry \<in> set (sellers (stats ctx)). \<forall>customerId \<in> set (s_customers (snd entry)).
        customerRevenueOr0 (stats ctx) customerId \<le> 0) \<longrightarrow>
      bonusCustomerRetention ctx = Inl TypeError) \<and>
   ((\<exists>entry \<in> set (sellers (stats ctx)). \<exists>customerId \<in> set (s_customers (snd entry)).
        customerRevenueOr0 (stats ctx) customerId > 0) \<longrightarrow>
      (\<exists>result. bonusCustomerRetention ctx = Inr result)) \<and>
   ((\<forall>entry \<in> set (recordsBySeller ctx). \<forall>r \<in> set (snd entry). total_amount r \<le> 0) \<longrightarrow>
      bonusLargestSingleSale ctx = Inl TypeError) \<and>
   ((\<exists>entry \<in> set (recordsBySeller ctx). \<exists>r \<in> set (snd entry). total_amount r > 0) \<longrightarrow>
      (\<exists>result. bonusLargestSingleSale ctx = Inr result)) \<and>
   ((\<forall>entry \<in> set (sellers (stats ctx)). averageProfitOf (snd entry) \<le> 0) \<longrightarrow>
      bonusHighestAverageProfit ctx = Inl TypeError) \<and>
   ((\<exists>entry \<in> set (sellers (stats ctx)). averageProfitOf (snd entry) > 0) \<longrightarrow>
      (\<exists>result. bonusHighestAverageProfit ctx = Inr result))"
proof -
  have b1: "bonusBestCustomer ctx = Inl TypeError"
    if "\<forall>entry \<in> set (customers (stats ctx)). c_revenue (snd entry) \<le> 0"
    using that bestCustomerOf_None_iff [of "stats ctx"] by (simp add: bonusBestCustomer_def)
  have b2: "\<exists>bestCustomer. bestCustomerOf (stats ctx) = Some bestCustomer \<and>
         ((\<forall>sellerId \<in> set (c_sellers (snd bestCustomer)). sellerRevenueOr0 (stats ctx) sellerId \<le> 0) \<longrightarrow>
            bonusBestCustomer ctx = Inl TypeError) \<and>
         ((\<exists>sellerId \<in> set (c_sellers (snd bestCustomer)). sellerRevenueOr0 (stats ctx) sellerId > 0) \<longrightarrow>
            (\<exists>result. bonusBestCustomer ctx = Inr result))"
    if a: "\<exists>entry \<in> set (customers (stats ctx)). c_revenue (snd entry) > 0"
  proof -
    from a have "bestCustomerOf (stats ctx) \<noteq> None"
      unfolding bestCustomerOf_None_iff by (auto simp: not_le)
    then obtain bc where bc: "bestCustomerOf (stats ctx) = Some bc" by auto
    have n: "bonusBestCustomer ctx = Inl TypeError"
      if "\<forall>sellerId \<in> set (c_sellers (snd bc)). sellerRevenueOr0 (stats ctx) sellerId \<le> 0"
      using that topSellerOf_None_iff [of "stats ctx" "c_sellers (snd bc)"]
      by (simp add: bonusBestCustomer_def bc)
    have s: "\<exists>result. bonusBestCustomer ctx = Inr result"
      if "\<exists>sellerId \<in> set (c_sellers (snd bc)). sellerRevenueOr0 (stats ctx) sellerId > 0"
    proof -
      from that have "topSellerOf (stats ctx) (c_sellers (snd bc)) \<noteq> None"
        unfolding topSellerOf_None_iff by (auto simp: not_le)
      then obtain t where "topSellerOf (stats ctx) (c_sellers (snd bc)) = Some t" by auto
      then show ?thesis by (simp add: bonusBestCustomer_def bc)
    qed
    from bc n s show ?thesis by blast
  qed
  have r1: "bonusCustomerRetention ctx = Inl TypeError"
    if "\<forall>entry \<in> set (sellers (stats ctx)). \<forall>customerId \<in> set (s_customers (snd entry)).
        customerRevenueOr0 (stats ctx) customerId \<le> 0"
    using that bestRetentionOf_None_iff [of "stats ctx"] by (simp add: bonusCustomerRetention_def)
  have r2: "\<exists>result. bonusCustomerRetention ctx = Inr result"
    if a: "\<exists>entry \<in> set (sellers (stats ctx)). \<exists>customerId \<in> set (s_customers (snd entry)).
        customerRevenueOr0 (stats ctx) customerId > 0"
  proof -
    from a have "bestRetentionOf (stats ctx) \<noteq> None"
      unfolding bestRetentionOf_None_iff by (auto simp: not_le)
    then obtain b where "bestRetentionOf (stats ctx) = Some b" by auto
    then show ?thesis by (simp add: bonusCustomerRetention_def)
  qed
  have l1: "bonusLargestSingleSale ctx = Inl TypeError"
    if "\<forall>entry \<in> set (recordsBySeller ctx). \<forall>r \<in> set (snd entry). total_amount r \<le> 0"
    using that largestSaleOf_None_iff [of "recordsBySeller ctx"]
    by (simp add: bonusLargestSingleSale_def)
  have l2: "\<exists>result. bonusLargestSingleSale ctx = Inr result"
    if a: "\<exists>entry \<in> set (recordsBySeller ctx). \<exists>r \<in> set (snd entry). total_amount r > 0"
  proof -
    from a have "largestSaleOf (recordsBySeller ctx) \<noteq> None"
      unfolding largestSaleOf_None_iff by (auto simp: not_le)
    then obtain b where "largestSaleOf (recordsBySeller ctx) = Some b" by auto
    then show ?thesis by (simp add: bonusLargestSingleSale_def)
  qed
  have h1: "bonusHighestAverageProfit ctx = Inl TypeError"
    if "\<forall>entry \<in> set (sellers (stats ctx)). averageProfitOf (snd entry) \<le> 0"
    using that bestAverageOf_None_iff [of "stats ctx"] by (simp add: bonusHighestAverageProfit_def)
  have h2: "\<exists>result. bonusHighestAverageProfit ctx = Inr result"
    if a: "\<exists>entry \<in> set (sellers (stats ctx)). averageProfitOf (snd entry) > 0"
  proof -
    from a have "bestAverageOf (stats ctx) \<noteq> None"
      unfolding bestAverageOf_None_iff by (auto simp: not_le)
    then obtain b where "bestAverageOf (stats ctx) = Some b" by auto
    then show ?thesis by (simp add: bonusHighestAverageProfit_def)
  qed
  from b1 b2 r1 r2 l1 l2 h1 h2 show ?thesis by blast
qed

lemma sample_bestCustomer:
  "bestCustomerOf sampleStats =
     Some (''customer_1'', \<lparr>c_revenue = 375, c_profit = 155,
            c_sellers = [''seller_1'', ''seller_2'', ''seller_3'', ''seller_4'']\<rparr>)"
proof -
  have e: "Object_entries (customers sampleStats) = customers sampleStats"
    by (rule Object_entries_letters) (simp add: sampleStats_def isDigit_def)
  show ?thesis unfolding bestCustomerOf_def e by (simp add: sampleStats_def)
qed

text \<open>
  On the sample dataset all four rules return a result; on the dataset with a return
  the seller's average profit is negative and \<open>bonusHighestAverageProfit\<close> fails.
\<close>

theorem null_seeded_reduce_rules_witness:
  "ruleContext sampleData simpleProfit baseMetrics = Inr sampleContext \<and>
   (\<exists>result. bonusBestCustomer sampleContext = Inr result) \<and>
   (\<exists>result. bonusCustomerRetention sampleContext = Inr result) \<and>
   (\<exists>result. bonusLargestSingleSale sampleContext = Inr result) \<and>
   (\<exists>result. bonusHighestAverageProfit sampleContext = Inr result) \<and>
   bonusHighestAverageProfit returnContext = Inl TypeError"
proof -
  have s: "stats sampleContext = sampleStats" by (simp add: sampleContext_def contextFor_def)
  have g: "recordsBySeller sampleContext = groupBy sampleRecords seller_id"
    by (simp add: sampleContext_def contextFor_def sampleData_def)
  have r: "stats returnContext = returnStats" by (simp add: returnContext_def contextFor_def)
  have c1: "\<exists>entry \<in> set (customers (stats sampleContext)). c_revenue (snd entry) > 0"
    by (simp add: s sampleStats_def)
  have c2: "\<exists>sellerId \<in> set (c_sellers (snd bc)). sellerRevenueOr0 (stats sampleContext) sellerId > 0"
    if "bestCustomerOf (stats sampleContext) = Some bc" for bc
  proof -
    from that have bc: "bc = (''customer_1'', \<lparr>c_revenue = 375, c_profit = 155,
            c_sellers = [''seller_1'', ''seller_2'', ''seller_3'', ''seller_4'']\<rparr>)"
      by (simp add: s sample_bestCustomer)
    have "sellerRevenueOr0 sampleStats ''seller_1'' > 0"
      by (simp add: sellerRevenueOr0_def sampleStats_def)
    then show ?thesis unfolding bc s by simp 
  qed
  have c3: "\<exists>entry \<in> set (sellers (stats sampleContext)). \<exists>customerId \<in> set (s_customers (snd entry)).
        customerRevenueOr0 (stats sampleContext) customerId > 0"
    by (simp add: s sampleStats_def customerRevenueOr0_def)
  have c4: "\<exists>entry \<in> set (recordsBySeller sampleContext). \<exists>r \<in> set (snd entry). total_amount r > 0"
    unfolding g sample_bySeller by (simp add: sampleRecords_def)
  have c5: "\<exists>entry \<in> set (sellers (stats sampleContext)). averageProfitOf (snd entry) > 0"
    by (simp add: s sampleStats_def averageProfitOf_def)
  have c6: "\<forall>entry \<in> set (sellers (stats returnContext)). averageProfitOf (snd entry) \<le> 0"
    by (simp add: r returnStats_def averageProfitOf_def)
  note T = null_seeded_reduce_rules [of sampleContext]
  from T c1 c2 have 1: "\<exists>result. bonusBestCustomer sampleContext = Inr result" by blast
  from T c3 have 2: "\<exists>result. bonusCustomerRetention sampleContext = Inr result" by blast
  from T c4 have 3: "\<exists>result. bonusLargestSingleSale sampleContext = Inr result" by blast
  from T c5 have 4: "\<exists>result. bonusHighestAverageProfit sampleContext = Inr result" by blast
  from null_seeded_reduce_rules [of returnContext] c6
  have 5: "bonusHighestAverageProfit returnContext = Inl TypeError" by blast
  from sample_context 1 2 3 4 5 show ?thesis by blast
qed

section \<open>Largest Single Sale: grouped by seller against the global maximum\<close>

lemma fold_best_first:
  assumes step: "\<And>best x. x \<in> set xs \<Longrightarrow>
      f best x = (case m x of None \<Rightarrow> best
                  | Some v \<Rightarrow> if v > (case best of None \<Rightarrow> 0 | Some b \<Rightarrow> w b)
                              then Some (mk x v) else best)"
    and w: "\<And>x v. m x = Some v \<Longrightarrow> w (mk x v) = (v::real)"
    and res: "foldl f None xs = Some b"
  shows "\<exists>pre x post v. xs = pre @ x # post \<and> m x = Some v \<and> b = mk x v \<and>
           (\<forall>y \<in> set pre. \<forall>u. m y = Some u \<longrightarrow> u < v)"
  using step res
proof (induction xs arbitrary: b rule: rev_induct)
  case Nil
  then show ?case by simp
next
  case (snoc x xs)
  have stepxs: "\<And>best y. y \<in> set xs \<Longrightarrow>
      f best y = (case m y of None \<Rightarrow> best
                  | Some v \<Rightarrow> if v > (case best of None \<Rightarrow> 0 | Some b \<Rightarrow> w b)
                              then Some (mk y v) else best)"
    by (rule snoc.prems(1)) simp
  let ?r = "foldl f None xs"
  have fx: "f ?r x = (case m x of None \<Rightarrow> ?r
                  | Some v \<Rightarrow> if v > (case ?r of None \<Rightarrow> 0 | Some b \<Rightarrow> w b)
                              then Some (mk x v) else ?r)"
    by (rule snoc.prems(1)) simp
  have res: "f ?r x = Some b" using snoc.prems(2) by simp
  have keep: "\<exists>pre y post v. xs @ [x] = pre @ y # post \<and> m y = Some v \<and> b = mk y v \<and>
           (\<forall>z \<in> set pre. \<forall>u. m z = Some u \<longrightarrow> u < v)" if "?r = Some b"
  proof -
    from snoc.IH [OF stepxs that] obtain pre y post v where
      d: "xs = pre @ y # post" "m y = Some v" "b = mk y v"
         "\<forall>z \<in> set pre. \<forall>u. m z = Some u \<longrightarrow> u < v"
      by blast
    from d(1) have "xs @ [x] = pre @ y # (post @ [x])" by simp
    with d show ?thesis by blast
  qed
  show ?case
  proof (cases "m x")
    case None
    with fx res have "?r = Some b" by simp
    then show ?thesis by (rule keep)
  next
    case (Some v)
    show ?thesis
    proof (cases "v > (case ?r of None \<Rightarrow> 0 | Some b \<Rightarrow> w b)")
      case False
      with fx res Some have "?r = Some b" by simp
      then show ?thesis by (rule keep)
    next
      case True
      with fx res Some have b: "b = mk x v" by simp
      have below: "\<forall>y \<in> set xs. \<forall>u. m y = Some u \<longrightarrow> u < v"
      proof (cases ?r)
        case None
        then have "\<forall>y \<in> set xs. \<forall>u. m y = Some u \<longrightarrow> u \<le> 0"
          using fold_best_None_iff [where xs = xs and f = f and m = m and w = w and mk = mk,
              OF stepxs w] by simp
        moreover from True None have "0 < v" by simp
        ultimately show ?thesis by fastforce
      next
        case (Some c)
        have "\<forall>y \<in> set xs. \<forall>u. m y = Some u \<longrightarrow> u \<le> w c"
          using fold_best_Some [where xs = xs and f = f and m = m and w = w and mk = mk and b = c,
              OF stepxs w Some] by simp
        moreover from True Some have "w c < v" by simp
        ultimately show ?thesis by fastforce
      qed
      have "xs @ [x] = xs @ x # []" by simp
      with Some b below show ?thesis by blast
    qed
  qed
qed

lemma largestRecordOf_first:
  assumes "largestRecordOf records = Some g"
  shows "\<exists>pre post. records = pre @ g # post \<and> (\<forall>x \<in> set pre. total_amount x < total_amount g)"
proof -
  have "\<exists>pre x post v. records = pre @ x # post \<and> Some (total_amount x) = Some v \<and> g = x \<and>
           (\<forall>y \<in> set pre. \<forall>u. Some (total_amount y) = Some u \<longrightarrow> u < v)"
    by (rule fold_best_first [where f = "\<lambda>recordMax record.
              if total_amount record > (case recordMax of None \<Rightarrow> 0 | Some m \<Rightarrow> total_amount m)
              then Some record else recordMax" and mk = "\<lambda>x v. x" and w = total_amount])
       (use assms in \<open>auto simp: largestRecordOf_def\<close>)
  then show ?thesis by auto
qed

lemma largestSaleOf_first:
  assumes "largestSaleOf bySeller = Some h"
  shows "\<exists>pre entry post. Object_entries bySeller = pre @ entry # post \<and>
           largestRecordOf (snd entry) = Some h \<and>
           (\<forall>e \<in> set pre. \<forall>x \<in> set (snd e). total_amount x < total_amount h)"
proof -
  let ?m = "\<lambda>x. map_option total_amount (largestRecordOf (snd x))"
  let ?mk = "\<lambda>x (v::real). the (largestRecordOf (snd x))"
  have "\<exists>pre x post v. Object_entries bySeller = pre @ x # post \<and> ?m x = Some v \<and> h = ?mk x v \<and>
           (\<forall>y \<in> set pre. \<forall>u. ?m y = Some u \<longrightarrow> u < v)"
    by (rule fold_best_first [where mk = ?mk and w = total_amount, OF largestSaleOf_step])
       (use assms in \<open>auto simp: largestSaleOf_def\<close>)
  then obtain pre x post v where d: "Object_entries bySeller = pre @ x # post"
      "?m x = Some v" "h = ?mk x v" "\<forall>y \<in> set pre. \<forall>u. ?m y = Some u \<longrightarrow> u < v"
    by blast
  from d(2) obtain z where z: "largestRecordOf (snd x) = Some z" "total_amount z = v" by auto
  with d(3) have hx: "largestRecordOf (snd x) = Some h" "total_amount h = v" by simp_all
  have "total_amount r < total_amount h" if "e \<in> set pre" "r \<in> set (snd e)" for e r
  proof (cases "largestRecordOf (snd e)")
    case None
    then have "total_amount r \<le> 0" using that(2) by (simp add: largestRecordOf_None_iff)
    moreover have "0 < total_amount h" using largestRecordOf_Some [OF hx(1)] by simp
    ultimately show ?thesis by simp
  next
    case (Some c)
    then have "total_amount r \<le> total_amount c" using largestRecordOf_Some [OF Some] that(2) by simp
    moreover have "total_amount c < v" using d(4) that(1) Some by simp
    ultimately show ?thesis using hx(2) by simp
  qed
  with d(1) hx(1) show ?thesis by blast
qed

lemma groupBy_entry:
  assumes "entry \<in> set (groupBy xs f)"
  shows "snd entry = filter (\<lambda>x. f x = fst entry) xs \<and> fst entry \<in> f ` set xs"
proof -
  from assms have "map_of (groupBy xs f) (fst entry) = Some (snd entry)"
    using distinct_keys_groupBy [of xs f] by simp
  then show ?thesis by (simp add: map_of_groupBy split: if_splits)
qed

lemma groupBy_bucket_of:
  assumes "x \<in> set xs"
  shows "(f x, filter (\<lambda>y. f y = f x) xs) \<in> set (groupBy xs f)"
proof -
  from assms have "map_of (groupBy xs f) (f x) = Some (filter (\<lambda>y. f y = f x) xs)"
    by (simp add: map_of_groupBy)
  then show ?thesis by (rule map_of_SomeD)
qed

lemma tie_metrics:
  "baseMetrics tieRecords simpleProfit sampleProducts = Inr tieStats"
  by (simp add: baseMetrics_def tieRecords_def metricsRecordStep_def metricsItemStep_def
      openBuckets_def accumulateItem_def
      sellerItem_def customerItem_def productItem_def Let_def sample_find simpleProfit_def setAdd_def tieStats_def)

lemma tie_context:
  "ruleContext tieData simpleProfit baseMetrics = Inr tieContext"
  by (simp add: ruleContext_def tieData_def tie_metrics tieContext_def)

lemma tie_bySeller: "groupBy tieRecords seller_id =
  [(''seller_1'', [tieRecords ! 0, tieRecords ! 2]), (''seller_2'', [tieRecords ! 1])]"
  by (simp add: groupBy_def groupByStep_def Let_def tieRecords_def)

lemma tie_bySeller_entries:
  "Object_entries (groupBy tieRecords seller_id) = groupBy tieRecords seller_id"
  by (rule Object_entries_letters) (simp add: tie_bySeller isDigit_def)

text \<open>
  C7, as the claim states it, fails on a tie between sellers: \<open>seller_2\<close> holds the first
  record with the maximal amount 100, but the records of \<open>seller_1\<close>, who sold first, are
  scanned first, and the rule names \<open>seller_1\<close>.  The bonus is the same.
\<close>

theorem largest_single_sale_counterexample:
  "ruleContext tieData simpleProfit baseMetrics = Inr tieContext \<and>
   bonusLargestSingleSale tieContext =
     Inr \<lparr>category = ''Largest Single Sale'', result_seller_id = Some ''seller_1'', bonus = 10\<rparr> \<and>
   globalLargestSale (purchase_records tieData) =
     Inr \<lparr>category = ''Largest Single Sale'', result_seller_id = Some ''seller_2'', bonus = 10\<rparr>"
proof -
  have g: "recordsBySeller tieContext = groupBy tieRecords seller_id"
    by (simp add: tieContext_def contextFor_def tieData_def)
  have s: "largestSaleOf (groupBy tieRecords seller_id) = Some (tieRecords ! 2)"
    unfolding largestSaleOf_def tie_bySeller_entries
    unfolding tie_bySeller
    by (simp add: largestRecordOf_def tieRecords_def)
  have d: "largestRecordOf tieRecords = Some (tieRecords ! 1)"
    by (simp add: largestRecordOf_def tieRecords_def)
  have t: "toFixed2 (100 * (1 / 10)) = 10"
    using toFixed2_int [of 10] by simp
  have a: "bonusLargestSingleSale tieContext =
     Inr \<lparr>category = ''Largest Single Sale'', result_seller_id = Some ''seller_1'', bonus = 10\<rparr>"
    unfolding bonusLargestSingleSale_def g s
    using t by (simp add: tieRecords_def)
  have b: "globalLargestSale (purchase_records tieData) =
     Inr \<lparr>category = ''Largest Single Sale'', result_seller_id = Some ''seller_2'', bonus = 10\<rparr>"
    unfolding globalLargestSale_def tieData_def dataset.simps d
    using t by (simp add: tieRecords_def)
  from tie_context a b show ?thesis by simp
qed

text \<open>
  C7, amended.  When some record has a strictly positive \<open>total_amount\<close>, the rule
  computed on the records grouped by seller returns a bonus of 10% of the maximal
  \<open>total_amount\<close>, rounded to 2 decimals, which is the bonus of the direct global
  maximum \<open>globalLargestSale\<close>; its \<open>seller_id\<close> is that of a record \<open>h\<close> with the
  maximal amount, namely of the first seller, in the enumeration order of the grouping,
  who has such a record.  The direct maximum takes the first record \<open>g\<close> with the
  maximal amount.  The two results are equal whenever all records with the maximal
  amount belong to one seller.
\<close>

theorem largest_single_sale:
  assumes ctx: "recordsBySeller ctx = groupBy records seller_id"
    and pos: "\<exists>r \<in> set records. total_amount r > 0"
  shows "\<exists>g h pre entry post.
     largestRecordOf records = Some g \<and>
     g \<in> set records \<and> (\<forall>x \<in> set records. total_amount x \<le> total_amount g) \<and>
     (\<exists>before after. records = before @ g # after \<and>
        (\<forall>x \<in> set before. total_amount x < total_amount g)) \<and>
     globalLargestSale records =
       Inr \<lparr>category = ''Largest Single Sale'', result_seller_id = Some (seller_id g),
            bonus = toFixed2 (total_amount g * 0.1)\<rparr> \<and>
     bonusLargestSingleSale ctx =
       Inr \<lparr>category = ''Largest Single Sale'', result_seller_id = Some (seller_id h),
            bonus = toFixed2 (total_amount g * 0.1)\<rparr> \<and>
     h \<in> set records \<and> total_amount h = total_amount g \<and>
     Object_entries (groupBy records seller_id) = pre @ entry # post \<and>
     fst entry = seller_id h \<and>
     (\<forall>e \<in> set pre. \<forall>x \<in> set (snd e). total_amount x < total_amount g) \<and>
     ((\<forall>x \<in> set records. total_amount x = total_amount g \<longrightarrow> seller_id x = seller_id g) \<longrightarrow>
        bonusLargestSingleSale ctx = globalLargestSale records)"
proof -
  let ?G = "groupBy records seller_id"
  from pos have "largestRecordOf records \<noteq> None"
    by (auto simp: largestRecordOf_None_iff not_le)
  then obtain g where g: "largestRecordOf records = Some g" by auto
  note gmax = largestRecordOf_Some [OF g]
  from pos obtain r where r: "r \<in> set records" "total_amount r > 0" by blast
  have "\<not> (\<forall>entry \<in> set ?G. \<forall>r \<in> set (snd entry). total_amount r \<le> 0)"
  proof
    assume a: "\<forall>entry \<in> set ?G. \<forall>r \<in> set (snd entry). total_amount r \<le> 0"
    from groupBy_bucket_of [OF r(1), of seller_id] a
    have "\<forall>x \<in> set (filter (\<lambda>y. seller_id y = seller_id r) records). total_amount x \<le> 0"
      by fastforce
    with r show False by auto
  qed
  then have "largestSaleOf ?G \<noteq> None" by (simp add: largestSaleOf_None_iff)
  then obtain h where h: "largestSaleOf ?G = Some h" by auto
  from largestSaleOf_first [OF h] obtain pre entry post where
    d: "Object_entries ?G = pre @ entry # post" "largestRecordOf (snd entry) = Some h"
       "\<forall>e \<in> set pre. \<forall>x \<in> set (snd e). total_amount x < total_amount h"
    by blast
  from d(1) have "entry \<in> set (Object_entries ?G)" by simp
  then have e: "entry \<in> set ?G" by (simp add: set_Object_entries)
  note b = groupBy_entry [OF e]
  from largestRecordOf_Some [OF d(2)] have hin: "h \<in> set (snd entry)" by simp
  with b have hrec: "h \<in> set records" and hsel: "fst entry = seller_id h" by auto
  from gmax hrec have le1: "total_amount h \<le> total_amount g" by simp
  have le2: "total_amount g \<le> total_amount h"
  proof -
    let ?bucket = "filter (\<lambda>y. seller_id y = seller_id g) records"
    have in_G: "(seller_id g, ?bucket) \<in> set ?G"
      using groupBy_bucket_of [of g records seller_id] gmax by simp
    have gb: "g \<in> set ?bucket" using gmax by simp
    have "largestRecordOf ?bucket \<noteq> None"
      using gb gmax by (auto simp: largestRecordOf_None_iff not_le)
    then obtain c where c: "largestRecordOf ?bucket = Some c" by auto
    from largestRecordOf_Some [OF c] gb have "total_amount g \<le> total_amount c" by simp
    moreover from largestSaleOf_Some [OF h] in_G c have "total_amount c \<le> total_amount h"
      by fastforce
    ultimately show ?thesis by simp
  qed
  from le1 le2 have eq: "total_amount h = total_amount g" by simp
  have direct: "globalLargestSale records =
       Inr \<lparr>category = ''Largest Single Sale'', result_seller_id = Some (seller_id g),
            bonus = toFixed2 (total_amount g * 0.1)\<rparr>"
    by (simp add: globalLargestSale_def g)
  have grouped: "bonusLargestSingleSale ctx =
       Inr \<lparr>category = ''Largest Single Sale'', result_seller_id = Some (seller_id h),
            bonus = toFixed2 (total_amount g * 0.1)\<rparr>"
    by (simp add: bonusLargestSingleSale_def ctx h eq)
  have same: "bonusLargestSingleSale ctx = globalLargestSale records"
    if "\<forall>x \<in> set records. total_amount x = total_amount g \<longrightarrow> seller_id x = seller_id g"
    using that hrec eq direct grouped by simp
  from d(3) eq have below: "\<forall>e \<in> set pre. \<forall>x \<in> set (snd e). total_amount x < total_amount g"
    by simp
  from g gmax largestRecordOf_first [OF g] direct grouped hrec eq d(1) hsel below same
  show ?thesis by blast
qed

text \<open>
  The amended claim on the sample dataset, where the largest sale is unique: the rule
  and the direct maximum agree.
\<close>

theorem largest_single_sale_witness:
  "(\<exists>r \<in> set sampleRecords. total_amount r > 0) \<and>
   bonusLargestSingleSale sampleContext = globalLargestSale sampleRecords \<and>
   globalLargestSale sampleRecords =
     Inr \<lparr>category = ''Largest Single Sale'', result_seller_id = Some ''seller_1'', bonus = 20\<rparr>"
proof -
  have g: "recordsBySeller sampleContext = groupBy sampleRecords seller_id"
    by (simp add: sampleContext_def contextFor_def sampleData_def)
  have pos: "\<exists>r \<in> set sampleRecords. total_amount r > 0"
    by (simp add: sampleRecords_def)
  have d: "largestRecordOf sampleRecords = Some (sampleRecords ! 0)"
    by (simp add: largestRecordOf_def sampleRecords_def)
  have u: "\<forall>x \<in> set sampleRecords. total_amount x = total_amount (sampleRecords ! 0) \<longrightarrow>
             seller_id x = seller_id (sampleRecords ! 0)"
    by (simp add: sampleRecords_def)
  from largest_single_sale [OF g pos] obtain g' where
    g': "largestRecordOf sampleRecords = Some g'"
    and imp: "(\<forall>x \<in> set sampleRecords. total_amount x = total_amount g' \<longrightarrow>
                 seller_id x = seller_id g') \<longrightarrow>
              bonusLargestSingleSale sampleContext = globalLargestSale sampleRecords"
    by blast
  from g' d have "g' = sampleRecords ! 0" by simp
  with imp u
  have same: "bonusLargestSingleSale sampleContext = globalLargestSale sampleRecords"
    by blast
  have t: "toFixed2 (200 * (1 / 10)) = 20"
    using toFixed2_int [of 20] by simp
  have v: "globalLargestSale sampleRecords =
     Inr \<lparr>category = ''Largest Single Sale'', result_seller_id = Some ''seller_1'', bonus = 20\<rparr>"
    unfolding globalLargestSale_def d using t by (simp add: sampleRecords_def)
  from pos same v show ?thesis by simp
qed

section \<open>Metrics Accumulator: what a call computes\<close>

text \<open>
  When the profit function returns on every item, \<open>baseMetrics\<close> is a fold of the pure
  updates \<open>openBuckets\<close> and \<open>accumulateItem\<close>.
\<close>

lemma foldE_pure:
  "(\<And>acc x. x \<in> set xs \<Longrightarrow> f acc x = Inr (h acc x)) \<Longrightarrow> foldE f acc xs = Inr (foldl h acc xs)"
  by (induction xs arbitrary: acc) simp_all

lemma metricsRecordStep_pure:
  assumes "\<And>item. item \<in> set (items r) \<Longrightarrow>
             calcProfit item (findProduct prods (sku item)) = Inr (g item)"
  shows "metricsRecordStep calcProfit prods acc r =
     Inr (foldl (\<lambda>acc item. accumulateItem (seller_id r) (customer_id r) (g item) acc item)
            (openBuckets (seller_id r) (customer_id r) acc) (items r))"
  unfolding metricsRecordStep_def Let_def
  by (rule foldE_pure) (simp add: metricsItemStep_def assms)

lemma baseMetrics_pure:
  assumes "\<And>item. item \<in> set (allItems records) \<Longrightarrow>
             calcProfit item (findProduct prods (sku item)) = Inr (g item)"
  shows "baseMetrics records calcProfit prods =
     Inr (foldl (\<lambda>acc r. foldl (\<lambda>acc item. accumulateItem (seller_id r) (customer_id r) (g item) acc item)
                   (openBuckets (seller_id r) (customer_id r) acc) (items r))
            \<lparr>sellers = [], customers = [], products = []\<rparr> records)"
  unfolding baseMetrics_def
proof (rule foldE_pure)
  fix acc r assume r: "r \<in> set records"
  show "metricsRecordStep calcProfit prods acc r =
     Inr (foldl (\<lambda>acc item. accumulateItem (seller_id r) (customer_id r) (g item) acc item)
            (openBuckets (seller_id r) (customer_id r) acc) (items r))"
  proof (rule metricsRecordStep_pure)
    fix item assume "item \<in> set (items r)"
    with r have "item \<in> set (allItems records)" by (auto simp: allItems_def)
    then show "calcProfit item (findProduct prods (sku item)) = Inr (g item)"
      by (rule assms)
  qed
qed

text \<open>The components of the accumulator after each step.\<close>

lemma sellers_accumulateItem:
  "sellers (accumulateItem sid cid p acc item) =
     AList.map_entry sid (sellerItem cid p item) (sellers acc)"
  by (simp add: accumulateItem_def Let_def)

lemma customers_accumulateItem:
  "customers (accumulateItem sid cid p acc item) =
     AList.map_entry cid (customerItem sid p item) (customers acc)"
  by (simp add: accumulateItem_def Let_def)

lemma products_accumulateItem:
  "products (accumulateItem sid cid p acc item) =
     AList.map_entry (sku item) (productItem item)
       (if map_of (products acc) (sku item) = None
        then AList.update (sku item) \<lparr>p_quantity = 0, p_revenue = 0\<rparr> (products acc)
        else products acc)"
  by (simp add: accumulateItem_def Let_def)

lemma sellers_openBuckets:
  "sellers (openBuckets sid cid acc) =
     (if map_of (sellers acc) sid = None
      then AList.update sid \<lparr>s_revenue = 0, s_profit = 0, s_items = [], s_customers = []\<rparr> (sellers acc)
      else sellers acc)"
  by (auto simp: openBuckets_def Let_def)

lemma customers_openBuckets:
  "customers (openBuckets sid cid acc) =
     (if map_of (customers acc) cid = None
      then AList.update cid \<lparr>c_revenue = 0, c_profit = 0, c_sellers = []\<rparr> (customers acc)
      else customers acc)"
  by (auto simp: openBuckets_def Let_def)

lemma products_openBuckets: "products (openBuckets sid cid acc) = products acc"
  by (simp add: openBuckets_def Let_def)








subsection \<open>The accumulator with rounding\<close>











subsection \<open>Doubles of concrete numbers\<close>













lemma tolerantProfitR_total: "\<exists>v. tolerantProfitR rnd item product = Inr v"
  by (simp add: tolerantProfitR_def)






section \<open>Metrics Accumulator: items without a catalog product\<close>

text \<open>The seller bucket of a key through the fold.\<close>

lemma sellers_items_fold:
  "map_of (sellers (foldl (\<lambda>acc item. accumulateItem sid cid (g item) acc item) acc its)) s =
     (if s = sid
      then map_option (\<lambda>b. foldl (\<lambda>b item. sellerItem cid (g item) item b) b its)
             (map_of (sellers acc) s)
      else map_of (sellers acc) s)"
proof (induction its arbitrary: acc)
  case Nil
  show ?case by (simp add: option.map_ident)
next
  case (Cons item its)
  show ?case
    unfolding foldl_Cons Cons.IH
    by (simp add: sellers_accumulateItem AList.map_of_map_entry option.map_comp comp_def
        split: option.splits)
qed

lemma sellers_record:
  "map_of (sellers (foldl (\<lambda>acc item. accumulateItem (seller_id r) (customer_id r) (g item) acc item)
            (openBuckets (seller_id r) (customer_id r) acc) (items r))) s =
     (if s = seller_id r
      then Some (foldl (\<lambda>b item. sellerItem (customer_id r) (g item) item b)
                   (case map_of (sellers acc) s of
                      None \<Rightarrow> \<lparr>s_revenue = 0, s_profit = 0, s_items = [], s_customers = []\<rparr>
                    | Some b \<Rightarrow> b)
                   (items r))
      else map_of (sellers acc) s)"
  unfolding sellers_items_fold
  by (auto simp: sellers_openBuckets AList.update_conv')

lemma sellers_records:
  "map_of (sellers (foldl (\<lambda>acc r. foldl (\<lambda>acc item. accumulateItem (seller_id r) (customer_id r) (g item) acc item)
                   (openBuckets (seller_id r) (customer_id r) acc) (items r)) acc rs)) s =
     (if filter (\<lambda>r. seller_id r = s) rs = [] then map_of (sellers acc) s
      else Some (foldl (\<lambda>b r. foldl (\<lambda>b item. sellerItem (customer_id r) (g item) item b) b (items r))
                   (case map_of (sellers acc) s of
                      None \<Rightarrow> \<lparr>s_revenue = 0, s_profit = 0, s_items = [], s_customers = []\<rparr>
                    | Some b \<Rightarrow> b)
                   (filter (\<lambda>r. seller_id r = s) rs)))"
proof (induction rs arbitrary: acc)
  case Nil
  show ?case by simp
next
  case (Cons r rs)
  show ?case
    unfolding foldl_Cons Cons.IH sellers_record
    by simp
qed

lemma seller_items_closed:
  "foldl (\<lambda>b item. sellerItem cid (g item) item b) b its =
     \<lparr>s_revenue = s_revenue b + sum_list (map lineRevenue its),
      s_profit = s_profit b + sum_list (map g its),
      s_items = s_items b @ its,
      s_customers = foldl (\<lambda>seen x. if x \<in> set seen then seen else seen @ [x]) (s_customers b)
                      (map (\<lambda>i. cid) its)\<rparr>"
proof (induction its arbitrary: b)
  case Nil
  show ?case by simp
next
  case (Cons item its)
  show ?case
    unfolding foldl_Cons Cons.IH
    by (simp add: sellerItem_def lineRevenue_def [symmetric] setAdd_def)
qed

lemma seller_records_closed:
  "foldl (\<lambda>b r. foldl (\<lambda>b item. sellerItem (customer_id r) (g item) item b) b (items r)) b own =
     \<lparr>s_revenue = s_revenue b + sum_list (map lineRevenue (allItems own)),
      s_profit = s_profit b + sum_list (map g (allItems own)),
      s_items = s_items b @ allItems own,
      s_customers = foldl (\<lambda>seen x. if x \<in> set seen then seen else seen @ [x]) (s_customers b)
                      (concat (map (\<lambda>r. map (\<lambda>i. customer_id r) (items r)) own))\<rparr>"
proof (induction own arbitrary: b)
  case Nil
  show ?case by (simp add: allItems_def)
next
  case (Cons r own)
  show ?case
    by (simp only: foldl_Cons Cons.IH) (simp add: seller_items_closed allItems_def)
qed

lemma sellers_aggregate:
  "map_of (sellers (foldl (\<lambda>acc r. foldl (\<lambda>acc item. accumulateItem (seller_id r) (customer_id r) (g item) acc item)
                   (openBuckets (seller_id r) (customer_id r) acc) (items r))
            \<lparr>sellers = [], customers = [], products = []\<rparr> records)) s =
     sellerAggregate g records s"
  unfolding sellers_records seller_records_closed
  by (simp add: sellerAggregate_def Let_def firstOccurrences_def)

text \<open>The customer bucket of a key through the fold.\<close>

lemma customers_items_fold:
  "map_of (customers (foldl (\<lambda>acc item. accumulateItem sid cid (g item) acc item) acc its)) c =
     (if c = cid
      then map_option (\<lambda>b. foldl (\<lambda>b item. customerItem sid (g item) item b) b its)
             (map_of (customers acc) c)
      else map_of (customers acc) c)"
proof (induction its arbitrary: acc)
  case Nil
  show ?case by (simp add: option.map_ident)
next
  case (Cons item its)
  show ?case
    unfolding foldl_Cons Cons.IH
    by (simp add: customers_accumulateItem AList.map_of_map_entry option.map_comp comp_def
        split: option.splits)
qed

lemma customers_record:
  "map_of (customers (foldl (\<lambda>acc item. accumulateItem (seller_id r) (customer_id r) (g item) acc item)
            (openBuckets (seller_id r) (customer_id r) acc) (items r))) c =
     (if c = customer_id r
      then Some (foldl (\<lambda>b item. customerItem (seller_id r) (g item) item b)
                   (case map_of (customers acc) c of
                      None \<Rightarrow> \<lparr>c_revenue = 0, c_profit = 0, c_sellers = []\<rparr>
                    | Some b \<Rightarrow> b)
                   (items r))
      else map_of (customers acc) c)"
  unfolding customers_items_fold
  by (auto simp: customers_openBuckets AList.update_conv')

lemma customers_records:
  "map_of (customers (foldl (\<lambda>acc r. foldl (\<lambda>acc item. accumulateItem (seller_id r) (customer_id r) (g item) acc item)
                   (openBuckets (seller_id r) (customer_id r) acc) (items r)) acc rs)) c =
     (if filter (\<lambda>r. customer_id r = c) rs = [] then map_of (customers acc) c
      else Some (foldl (\<lambda>b r. foldl (\<lambda>b item. customerItem (seller_id r) (g item) item b) b (items r))
                   (case map_of (customers acc) c of
                      None \<Rightarrow> \<lparr>c_revenue = 0, c_profit = 0, c_sellers = []\<rparr>
                    | Some b \<Rightarrow> b)
                   (filter (\<lambda>r. customer_id r = c) rs)))"
proof (induction rs arbitrary: acc)
  case Nil
  show ?case by simp
next
  case (Cons r rs)
  show ?case
    unfolding foldl_Cons Cons.IH customers_record
    by simp
qed

lemma customer_items_closed:
  "foldl (\<lambda>b item. customerItem sid (g item) item b) b its =
     \<lparr>c_revenue = c_revenue b + sum_list (map lineRevenue its),
      c_profit = c_profit b + sum_list (map g its),
      c_sellers = foldl (\<lambda>seen x. if x \<in> set seen then seen else seen @ [x]) (c_sellers b)
                      (map (\<lambda>i. sid) its)\<rparr>"
proof (induction its arbitrary: b)
  case Nil
  show ?case by simp
next
  case (Cons item its)
  show ?case
    unfolding foldl_Cons Cons.IH
    by (simp add: customerItem_def lineRevenue_def [symmetric] setAdd_def)
qed

lemma customer_records_closed:
  "foldl (\<lambda>b r. foldl (\<lambda>b item. customerItem (seller_id r) (g item) item b) b (items r)) b own =
     \<lparr>c_revenue = c_revenue b + sum_list (map lineRevenue (allItems own)),
      c_profit = c_profit b + sum_list (map g (allItems own)),
      c_sellers = foldl (\<lambda>seen x. if x \<in> set seen then seen else seen @ [x]) (c_sellers b)
                      (concat (map (\<lambda>r. map (\<lambda>i. seller_id r) (items r)) own))\<rparr>"
proof (induction own arbitrary: b)
  case Nil
  show ?case by (simp add: allItems_def)
next
  case (Cons r own)
  show ?case
    by (simp only: foldl_Cons Cons.IH) (simp add: customer_items_closed allItems_def)
qed

lemma customers_aggregate:
  "map_of (customers (foldl (\<lambda>acc r. foldl (\<lambda>acc item. accumulateItem (seller_id r) (customer_id r) (g item) acc item)
                   (openBuckets (seller_id r) (customer_id r) acc) (items r))
            \<lparr>sellers = [], customers = [], products = []\<rparr> records)) c =
     customerAggregate g records c"
  unfolding customers_records customer_records_closed
  by (simp add: customerAggregate_def Let_def firstOccurrences_def)

text \<open>The product bucket of a key through the fold.\<close>

lemma products_item:
  "map_of (products (accumulateItem sid cid p acc item)) k =
     (if k = sku item
      then Some (productItem item (case map_of (products acc) k of
                                     None \<Rightarrow> \<lparr>p_quantity = 0, p_revenue = 0\<rparr>
                                   | Some b \<Rightarrow> b))
      else map_of (products acc) k)"
  by (auto simp: products_accumulateItem AList.map_of_map_entry AList.update_conv')

lemma products_items_fold:
  "map_of (products (foldl (\<lambda>acc item. accumulateItem sid cid (g item) acc item) acc its)) k =
     (if filter (\<lambda>i. sku i = k) its = [] then map_of (products acc) k
      else Some (foldl (\<lambda>b i. productItem i b)
                   (case map_of (products acc) k of
                      None \<Rightarrow> \<lparr>p_quantity = 0, p_revenue = 0\<rparr>
                    | Some b \<Rightarrow> b)
                   (filter (\<lambda>i. sku i = k) its)))"
proof (induction its arbitrary: acc)
  case Nil
  show ?case by simp
next
  case (Cons item its)
  show ?case
    unfolding foldl_Cons Cons.IH products_item
    by simp
qed

lemma products_records:
  "map_of (products (foldl (\<lambda>acc r. foldl (\<lambda>acc item. accumulateItem (seller_id r) (customer_id r) (g item) acc item)
                   (openBuckets (seller_id r) (customer_id r) acc) (items r)) acc rs)) k =
     (if filter (\<lambda>i. sku i = k) (allItems rs) = [] then map_of (products acc) k
      else Some (foldl (\<lambda>b i. productItem i b)
                   (case map_of (products acc) k of
                      None \<Rightarrow> \<lparr>p_quantity = 0, p_revenue = 0\<rparr>
                    | Some b \<Rightarrow> b)
                   (filter (\<lambda>i. sku i = k) (allItems rs))))"
proof (induction rs arbitrary: acc)
  case Nil
  show ?case by (simp add: allItems_def)
next
  case (Cons r rs)
  have a: "allItems (r # rs) = items r @ allItems rs" by (simp add: allItems_def)
  show ?case
    unfolding foldl_Cons Cons.IH products_items_fold products_openBuckets a
    by simp
qed

lemma product_closed:
  "foldl (\<lambda>b i. productItem i b) b own =
     \<lparr>p_quantity = p_quantity b + sum_list (map quantity own),
      p_revenue = p_revenue b + sum_list (map lineRevenue own)\<rparr>"
proof (induction own arbitrary: b)
  case Nil
  show ?case by simp
next
  case (Cons i own)
  show ?case
    by (simp only: foldl_Cons Cons.IH) (simp add: productItem_def lineRevenue_def [symmetric])
qed

lemma products_aggregate:
  "map_of (products (foldl (\<lambda>acc r. foldl (\<lambda>acc item. accumulateItem (seller_id r) (customer_id r) (g item) acc item)
                   (openBuckets (seller_id r) (customer_id r) acc) (items r))
            \<lparr>sellers = [], customers = [], products = []\<rparr> records)) k =
     productAggregate records k"
  unfolding products_records product_closed
  by (simp add: productAggregate_def Let_def)

text \<open>When the profit function throws.\<close>

lemma foldE_fails:
  "\<exists>x \<in> set xs. \<forall>acc. \<exists>e. f acc x = Inl e \<Longrightarrow> \<exists>e. foldE f acc xs = Inl e"
proof (induction xs arbitrary: acc)
  case Nil
  then show ?case by simp
next
  case (Cons x xs)
  show ?case
  proof (cases "f acc x")
    case (Inl e)
    then show ?thesis by simp
  next
    case (Inr acc')
    from Cons.prems obtain y where y: "y \<in> set (x # xs)" "\<forall>acc. \<exists>e. f acc y = Inl e" by blast
    from y(2) obtain e where "f acc y = Inl e" by blast
    with Inr have "y \<noteq> x" by auto
    with y have "\<exists>x \<in> set xs. \<forall>acc. \<exists>e. f acc x = Inl e" by auto
    from Cons.IH [OF this] Inr show ?thesis by simp
  qed
qed

lemma baseMetrics_throws:
  assumes "\<exists>item \<in> set (allItems records). \<exists>e. calcProfit item (findProduct prods (sku item)) = Inl e"
  shows "\<exists>e. baseMetrics records calcProfit prods = Inl e"
proof -
  from assms obtain r item e where r: "r \<in> set records" and i: "item \<in> set (items r)"
    and e: "calcProfit item (findProduct prods (sku item)) = Inl e"
    by (auto simp: allItems_def)
  have "\<forall>acc. \<exists>e. metricsRecordStep calcProfit prods acc r = Inl e"
  proof
    fix acc
    have "\<forall>acc. \<exists>e'. metricsItemStep calcProfit prods (seller_id r) (customer_id r) acc item = Inl e'"
      by (simp add: metricsItemStep_def e)
    with i have "\<exists>x \<in> set (items r). \<forall>acc. \<exists>e'.
        metricsItemStep calcProfit prods (seller_id r) (customer_id r) acc x = Inl e'"
      by blast
    then show "\<exists>e. metricsRecordStep calcProfit prods acc r = Inl e"
      unfolding metricsRecordStep_def Let_def
      by (rule foldE_fails)
  qed
  with r show ?thesis unfolding baseMetrics_def by (intro foldE_fails) blast
qed

text \<open>
  What \<open>baseMetrics\<close> does with every item, whether or not its sku is in the catalog.
  When the profit function returns on every item, the seller and customer buckets are
  \<open>sellerAggregate\<close> and \<open>customerAggregate\<close> and the product buckets are
  \<open>productAggregate\<close>, sums over all items that do not read the catalog.  When the profit
  function throws on some item, \<open>baseMetrics\<close> throws.
\<close>

lemma baseMetrics_every_item:
  "((\<forall>item \<in> set (allItems records).
       calcProfit item (findProduct prods (sku item)) = Inr (g item)) \<longrightarrow>
    (\<exists>st. baseMetrics records calcProfit prods = Inr st \<and>
       (\<forall>s. map_of (sellers st) s = sellerAggregate g records s) \<and>
       (\<forall>c. map_of (customers st) c = customerAggregate g records c) \<and>
       (\<forall>k. map_of (products st) k = productAggregate records k))) \<and>
   ((\<exists>item \<in> set (allItems records). \<exists>e.
       calcProfit item (findProduct prods (sku item)) = Inl e) \<longrightarrow>
    (\<exists>e. baseMetrics records calcProfit prods = Inl e))"
proof (intro conjI impI)
  assume h: "\<forall>item \<in> set (allItems records).
       calcProfit item (findProduct prods (sku item)) = Inr (g item)"
  have "baseMetrics records calcProfit prods =
     Inr (foldl (\<lambda>acc r. foldl (\<lambda>acc item. accumulateItem (seller_id r) (customer_id r) (g item) acc item)
                   (openBuckets (seller_id r) (customer_id r) acc) (items r))
            \<lparr>sellers = [], customers = [], products = []\<rparr> records)"
    by (rule baseMetrics_pure) (use h in blast)
  then show "\<exists>st. baseMetrics records calcProfit prods = Inr st \<and>
       (\<forall>s. map_of (sellers st) s = sellerAggregate g records s) \<and>
       (\<forall>c. map_of (customers st) c = customerAggregate g records c) \<and>
       (\<forall>k. map_of (products st) k = productAggregate records k)"
    by (simp add: sellers_aggregate customers_aggregate products_aggregate)
next
  assume "\<exists>item \<in> set (allItems records). \<exists>e.
       calcProfit item (findProduct prods (sku item)) = Inl e"
  then show "\<exists>e. baseMetrics records calcProfit prods = Inl e"
    by (rule baseMetrics_throws)
qed

text \<open>
  The loop of \<open>analyzeSalesData\<close> over the items of a record looks the product up too,
  and leaves an item without a product out.
\<close>

lemma salesItemStep_skips:
  "map_of productIndex (sku item) = None \<Longrightarrow>
   salesItemStep calculateRevenue productIndex i sellerStats item = sellerStats"
  by (simp add: salesItemStep_def)

text \<open>The sale with the unknown sku under the two profit functions.\<close>

lemma unknown_metrics:
  "baseMetrics unknownSkuRecords tolerantProfit sampleProducts = Inr unknownSkuStats"
  by (simp add: baseMetrics_def unknownSkuRecords_def metricsRecordStep_def metricsItemStep_def
      openBuckets_def accumulateItem_def sellerItem_def customerItem_def productItem_def Let_def
      sample_find unknown_find tolerantProfit_def setAdd_def unknownSkuStats_def)

lemma unknown_throws:
  "baseMetrics unknownSkuRecords simpleProfit sampleProducts = Inl TypeError"
  by (simp add: baseMetrics_def unknownSkuRecords_def metricsRecordStep_def metricsItemStep_def
      openBuckets_def accumulateItem_def sellerItem_def customerItem_def productItem_def Let_def
      sample_find unknown_find simpleProfit_def setAdd_def)

text \<open>
  C1.  The claim: an item whose sku has no product in the catalog is skipped silently;
  it adds nothing to any seller, customer or product aggregate, the profit function is
  not applied to it, and the remaining items are processed.  The code at a sale whose
  second item has the sku \<open>SKU_999\<close>, which no product has: with the reference
  \<open>simpleProfit\<close> the profit function is applied to the item and throws, and
  \<open>baseMetrics\<close> returns no aggregates; with a profit function that returns on an
  undefined product the item is counted (revenue 230, not 200, and a product bucket for
  \<open>SKU_999\<close>).  \<open>baseMetrics\<close> has no guard on the result of \<^verbatim>\<open>products.find\<close>.
\<close>

theorem baseMetrics_unknown_sku:
  "findProduct sampleProducts ''SKU_999'' = None \<and>
   baseMetrics unknownSkuRecords simpleProfit sampleProducts = Inl TypeError \<and>
   baseMetrics unknownSkuRecords tolerantProfit sampleProducts = Inr unknownSkuStats"
proof (intro conjI)
  show "findProduct sampleProducts ''SKU_999'' = None"
    by (rule unknown_find)
  show "baseMetrics unknownSkuRecords simpleProfit sampleProducts = Inl TypeError"
    by (rule unknown_throws)
  show "baseMetrics unknownSkuRecords tolerantProfit sampleProducts = Inr unknownSkuStats"
    by (rule unknown_metrics)
qed

section \<open>analyzeSalesData: the top products of a seller\<close>

text \<open>The comparator sort is the library's stable sort by a key.\<close>

lemma insertBy_insort_key:
  "insertBy (\<lambda>a b. g b - g a) x ys = insort_key (\<lambda>x. - g x) x ys"
  by (induction ys) simp_all

lemma sortBy_sort_key: "sortBy (\<lambda>a b. g b - g a) xs = sort_key (\<lambda>x. - g x) xs"
  by (induction xs) (simp_all add: sortBy_def insertBy_insort_key)

lemma set_rankSellers: "set (rankSellers xs) = set xs"
  by (simp add: rankSellers_def sortBy_sort_key)

lemma topProducts_sort_key:
  "topProducts s = take 10 (sort_key (\<lambda>e. - snd e) (Object_entries (products_sold s)))"
  by (simp add: topProducts_def sortBy_sort_key)

lemma Object_keys_enumerationOrder: "map fst (Object_entries obj) = enumerationOrder (map fst obj)"
  using Object_keys_eq [of obj] by (simp add: Object_keys_def enumerationOrder_def)

lemma enumerationOrder_no_index:
  "\<forall>k \<in> set ks. \<not> isArrayIndex k \<Longrightarrow> enumerationOrder ks = ks"
proof -
  assume a: "\<forall>k \<in> set ks. \<not> isArrayIndex k"
  then have "filter isArrayIndex ks = []" by (auto simp: filter_empty_conv)
  moreover from a have "filter (\<lambda>k. \<not> isArrayIndex k) ks = ks" by (auto simp: filter_id_conv)
  ultimately show ?thesis by (simp add: enumerationOrder_def)
qed

lemma filter_take_prefix: "\<exists>m. filter P (take n xs) = take m (filter P xs)"
proof (induction xs arbitrary: n)
  case Nil
  show ?case by simp
next
  case (Cons x xs)
  show ?case
  proof (cases n)
    case 0
    then show ?thesis by (auto intro: exI [of _ 0])
  next
    case (Suc n')
    from Cons [of n'] obtain m where m: "filter P (take n' xs) = take m (filter P xs)" by blast
    show ?thesis
    proof (cases "P x")
      case True
      with m Suc have "filter P (take n (x # xs)) = take (Suc m) (filter P (x # xs))" by simp
      then show ?thesis by blast
    next
      case False
      with m Suc have "filter P (take n (x # xs)) = take m (filter P (x # xs))" by simp
      then show ?thesis by blast
    qed
  qed
qed

lemma stable_ties:
  "filter (\<lambda>e. snd e = q) (sort_key (\<lambda>e. - snd e) xs) = filter (\<lambda>e. snd e = (q::real)) xs"
proof -
  have "filter (\<lambda>e. - snd e = - q) (sort_key (\<lambda>e. - snd e) xs) = filter (\<lambda>e. - snd e = - q) xs"
    by (rule sort_key_stable)
  then show ?thesis by simp
qed

lemma topProducts_properties:
  "length (topProducts s) \<le> 10 \<and>
   sorted_wrt (\<lambda>x y. y \<le> x) (map snd (topProducts s)) \<and>
   (\<forall>q. \<exists>m. filter (\<lambda>e. snd e = q) (topProducts s) =
            take m (filter (\<lambda>e. snd e = q) (Object_entries (products_sold s))))"
proof (intro conjI allI)
  show "length (topProducts s) \<le> 10" by (simp add: topProducts_sort_key)
  let ?S = "sort_key (\<lambda>e. - snd e) (Object_entries (products_sold s))"
  have "sorted (map (\<lambda>e. - snd e) ?S)" by (rule sorted_sort_key)
  then have "sorted_wrt (\<lambda>x y. y \<le> x) (map snd ?S)"
    by (simp add: sorted_wrt_map sorted_map)
  then have "sorted_wrt (\<lambda>x y. y \<le> x) (take 10 (map snd ?S))"
    by (rule sorted_wrt_take)
  then show "sorted_wrt (\<lambda>x y. y \<le> x) (map snd (topProducts s))"
    by (simp add: topProducts_sort_key take_map)
  fix q
  from filter_take_prefix [of "\<lambda>e. snd e = q" 10 ?S]
  show "\<exists>m. filter (\<lambda>e. snd e = q) (topProducts s) =
            take m (filter (\<lambda>e. snd e = q) (Object_entries (products_sold s)))"
    by (simp add: topProducts_sort_key stable_ties)
qed

lemma map_fst_map_entry: "map fst (AList.map_entry k f xs) = map fst xs"
  by (induction xs) auto

lemma keys_fromEntries_foldl:
  "fst ` set (foldl (\<lambda>obj (k, v). AList.update k v obj) acc es) = fst ` set acc \<union> fst ` set es"
proof (induction es arbitrary: acc)
  case Nil
  show ?case by simp
next
  case (Cons e es)
  show ?case
    unfolding foldl_Cons Cons.IH
    by (cases e) (auto simp: AList.dom_update)
qed

lemma values_fromEntries_foldl:
  "map_of (foldl (\<lambda>obj (k, v). AList.update k v obj) acc es) k = Some v \<Longrightarrow>
   (k, v) \<in> set es \<or> map_of acc k = Some v"
proof (induction es arbitrary: acc)
  case Nil
  then show ?case by simp
next
  case (Cons e es)
  obtain k' v' where e: "e = (k', v')" by (cases e)
  from Cons.prems have "map_of (foldl (\<lambda>obj (k, v). AList.update k v obj) (AList.update k' v' acc) es) k = Some v"
    by (simp add: e)
  from Cons.IH [OF this] show ?case
    by (auto simp: e AList.update_conv' split: if_splits)
qed

lemma sellerIndex_range:
  assumes "map_of (sellerIndexOf ss) sid = Some i"
  shows "i < length ss"
proof -
  let ?es = "map (\<lambda>(i, seller). (sellerId seller, i)) (enumerate 0 ss)"
  from assms have "map_of (foldl (\<lambda>obj (k, v). AList.update k v obj) [] ?es) sid = Some i"
    by (simp add: sellerIndexOf_def Object_fromEntries_def)
  from values_fromEntries_foldl [OF this]
  have "(sid, i) \<in> set ?es" by simp
  then obtain p where "p \<in> set (enumerate 0 ss)" "fst p = i" by auto
  then show ?thesis by (auto simp: in_set_enumerate_eq)
qed

lemma productIndex_known:
  "(map_of (productIndexOf prods) k \<noteq> None) = (k \<in> product_sku ` set prods)"
proof -
  have "(map_of (productIndexOf prods) k \<noteq> None) = (k \<in> fst ` set (productIndexOf prods))"
    by (simp add: map_of_eq_None_iff)
  also have "fst ` set (productIndexOf prods) = product_sku ` set prods"
    unfolding productIndexOf_def Object_fromEntries_def keys_fromEntries_foldl
    by (auto simp: image_iff)
  finally show ?thesis .
qed

text \<open>Positions and lengths through the loop over the records.\<close>

lemma length_salesItemStep [simp]:
  "length (salesItemStep cr PI i ss item) = length ss"
  by (simp add: salesItemStep_def Let_def split: option.splits)

lemma length_items_fold [simp]:
  "length (foldl (salesItemStep cr PI i) ss its) = length ss"
  by (induction its arbitrary: ss) simp_all

lemma length_salesRecordStep [simp]:
  "length (salesRecordStep cr SI PI ss r) = length ss"
  by (simp add: salesRecordStep_def Let_def split: option.splits)

lemma length_records_fold [simp]:
  "length (foldl (salesRecordStep cr SI PI) ss rs) = length ss"
  by (induction rs arbitrary: ss) simp_all

lemma sold_item_step:
  assumes "i < length ss"
  shows "map fst (products_sold (salesItemStep cr PI i ss item ! j)) =
     (if j = i \<and> map_of PI (sku item) \<noteq> None
      then (if sku item \<in> set (map fst (products_sold (ss ! j)))
            then map fst (products_sold (ss ! j))
            else map fst (products_sold (ss ! j)) @ [sku item])
      else map fst (products_sold (ss ! j)))"
proof (cases "map_of PI (sku item)")
  case None
  then show ?thesis by (simp add: salesItemStep_def)
next
  case (Some product)
  show ?thesis
  proof (cases "j = i")
    case False
    then show ?thesis using assms by (simp add: salesItemStep_def Some Let_def)
  next
    case True
    let ?sold = "products_sold (ss ! i)"
    show ?thesis
    proof (cases "map_of ?sold (sku item)")
      case None
      then have "sku item \<notin> fst ` set ?sold" by (simp add: map_of_eq_None_iff)
      then show ?thesis using assms True Some None
        by (simp add: salesItemStep_def Let_def map_fst_map_entry AList.update_keys)
    next
      case (Some q)
      then have "sku item \<in> fst ` set ?sold" by (metis map_of_eq_None_iff option.distinct(1))
      then show ?thesis using assms True \<open>map_of PI (sku item) = Some product\<close> Some
        by (simp add: salesItemStep_def Let_def map_fst_map_entry AList.update_keys)
    qed
  qed
qed

lemma sellerId_item_step:
  "i < length ss \<Longrightarrow> sellerId (salesItemStep cr PI i ss item ! j) = sellerId (ss ! j)"
  by (cases "j = i") (simp_all add: salesItemStep_def Let_def split: option.splits)

lemma sold_items_fold:
  "i < length ss \<Longrightarrow>
   map fst (products_sold (foldl (salesItemStep cr PI i) ss its ! j)) =
     (if j = i
      then foldl (\<lambda>seen x. if x \<in> set seen then seen else seen @ [x])
             (map fst (products_sold (ss ! j)))
             (map sku (filter (\<lambda>item. map_of PI (sku item) \<noteq> None) its))
      else map fst (products_sold (ss ! j)))"
proof (induction its arbitrary: ss)
  case Nil
  show ?case by simp
next
  case (Cons item its)
  have l: "i < length (salesItemStep cr PI i ss item)" using Cons.prems by simp
  show ?case
    unfolding foldl_Cons Cons.IH [OF l] sold_item_step [OF Cons.prems]
    by simp
qed

lemma sellerId_items_fold:
  "i < length ss \<Longrightarrow> sellerId (foldl (salesItemStep cr PI i) ss its ! j) = sellerId (ss ! j)"
proof (induction its arbitrary: ss)
  case Nil
  show ?case by simp
next
  case (Cons item its)
  have l: "i < length (salesItemStep cr PI i ss item)" using Cons.prems by simp
  have "sellerId (foldl (salesItemStep cr PI i) (salesItemStep cr PI i ss item) its ! j)
      = sellerId (salesItemStep cr PI i ss item ! j)"
    by (rule Cons.IH [OF l])
  also have "\<dots> = sellerId (ss ! j)"
    by (rule sellerId_item_step [OF Cons.prems])
  finally show ?case by simp
qed

lemma sold_record_step:
  assumes "\<And>sid i. map_of SI sid = Some i \<Longrightarrow> i < length ss"
  shows "map fst (products_sold (salesRecordStep cr SI PI ss r ! j)) =
     (if map_of SI (seller_id r) = Some j
      then foldl (\<lambda>seen x. if x \<in> set seen then seen else seen @ [x])
             (map fst (products_sold (ss ! j)))
             (map sku (filter (\<lambda>item. map_of PI (sku item) \<noteq> None) (items r)))
      else map fst (products_sold (ss ! j)))"
proof (cases "map_of SI (seller_id r)")
  case None
  then show ?thesis by (simp add: salesRecordStep_def)
next
  case (Some i)
  from assms [OF Some] have i: "i < length ss" .
  let ?ss1 = "ss[i := (ss ! i)\<lparr>sales_count := sales_count (ss ! i) + 1,
                                        revenue := revenue (ss ! i) + total_amount r\<rparr>]"
  have l: "i < length ?ss1" using i by simp
  have k: "map fst (products_sold (?ss1 ! j)) = map fst (products_sold (ss ! j))"
    using i by (cases "j = i") simp_all
  show ?thesis
    unfolding salesRecordStep_def Some option.case Let_def sold_items_fold [OF l] k
    by auto
qed

lemma sellerId_record_step:
  assumes "\<And>sid i. map_of SI sid = Some i \<Longrightarrow> i < length ss"
  shows "sellerId (salesRecordStep cr SI PI ss r ! j) = sellerId (ss ! j)"
proof (cases "map_of SI (seller_id r)")
  case None
  then show ?thesis by (simp add: salesRecordStep_def)
next
  case (Some i)
  from assms [OF Some] have i: "i < length ss" .
  let ?ss1 = "ss[i := (ss ! i)\<lparr>sales_count := sales_count (ss ! i) + 1,
                                        revenue := revenue (ss ! i) + total_amount r\<rparr>]"
  have l: "i < length ?ss1" using i by simp
  have k: "sellerId (?ss1 ! j) = sellerId (ss ! j)"
    using i by (cases "j = i") simp_all
  show ?thesis
    unfolding salesRecordStep_def Some option.case Let_def sellerId_items_fold [OF l] k ..
qed

lemma sold_records:
  assumes "\<And>sid i. map_of SI sid = Some i \<Longrightarrow> i < length ss"
  shows "map fst (products_sold (foldl (salesRecordStep cr SI PI) ss rs ! j)) =
     foldl (\<lambda>seen x. if x \<in> set seen then seen else seen @ [x])
       (map fst (products_sold (ss ! j)))
       (map sku (filter (\<lambda>item. map_of PI (sku item) \<noteq> None)
          (allItems (filter (\<lambda>r. map_of SI (seller_id r) = Some j) rs))))"
  using assms
proof (induction rs arbitrary: ss)
  case Nil
  show ?case by (simp add: allItems_def)
next
  case (Cons r rs)
  have a: "\<And>sid i. map_of SI sid = Some i \<Longrightarrow> i < length (salesRecordStep cr SI PI ss r)"
    using Cons.prems by simp
  have "map fst (products_sold (foldl (salesRecordStep cr SI PI) (salesRecordStep cr SI PI ss r) rs ! j)) =
     foldl (\<lambda>seen x. if x \<in> set seen then seen else seen @ [x])
       (map fst (products_sold (salesRecordStep cr SI PI ss r ! j)))
       (map sku (filter (\<lambda>item. map_of PI (sku item) \<noteq> None)
          (allItems (filter (\<lambda>r. map_of SI (seller_id r) = Some j) rs))))"
    by (rule Cons.IH [OF a])
  also have "map fst (products_sold (salesRecordStep cr SI PI ss r ! j)) =
     (if map_of SI (seller_id r) = Some j
      then foldl (\<lambda>seen x. if x \<in> set seen then seen else seen @ [x])
             (map fst (products_sold (ss ! j)))
             (map sku (filter (\<lambda>item. map_of PI (sku item) \<noteq> None) (items r)))
      else map fst (products_sold (ss ! j)))"
    by (rule sold_record_step [OF Cons.prems])
  finally show ?case by (simp add: allItems_def)
qed

lemma sellerId_records:
  assumes "\<And>sid i. map_of SI sid = Some i \<Longrightarrow> i < length ss"
  shows "sellerId (foldl (salesRecordStep cr SI PI) ss rs ! j) = sellerId (ss ! j)"
  using assms
proof (induction rs arbitrary: ss)
  case Nil
  show ?case by simp
next
  case (Cons r rs)
  have a: "\<And>sid i. map_of SI sid = Some i \<Longrightarrow> i < length (salesRecordStep cr SI PI ss r)"
    using Cons.prems by simp
  have "sellerId (foldl (salesRecordStep cr SI PI) (salesRecordStep cr SI PI ss r) rs ! j)
      = sellerId (salesRecordStep cr SI PI ss r ! j)"
    by (rule Cons.IH [OF a])
  also have "\<dots> = sellerId (ss ! j)"
    by (rule sellerId_record_step [OF Cons.prems])
  finally show ?case by simp
qed

lemma collectSellerStats_sold:
  assumes "j < length (data_sellers d)"
  shows "length (collectSellerStats d cr) = length (data_sellers d) \<and>
         sellerId (collectSellerStats d cr ! j) = id (data_sellers d ! j) \<and>
         map fst (products_sold (collectSellerStats d cr ! j)) = firstOccurrences (soldSkus d j)"
proof -
  let ?init = "initialSellerStats (data_sellers d)"
  have r: "\<And>sid i. map_of (sellerIndexOf ?init) sid = Some i \<Longrightarrow> i < length ?init"
    by (rule sellerIndex_range)
  have i0: "products_sold (?init ! j) = []" "sellerId (?init ! j) = id (data_sellers d ! j)"
    using assms by (simp_all add: initialSellerStats_def)
  have 1: "length (collectSellerStats d cr) = length (data_sellers d)"
    by (simp add: collectSellerStats_def Let_def initialSellerStats_def)
  have "sellerId (foldl (salesRecordStep cr (sellerIndexOf ?init) (productIndexOf (data_products d)))
            ?init (purchase_records d) ! j) = sellerId (?init ! j)"
    by (rule sellerId_records) (rule sellerIndex_range)
  then have 2: "sellerId (collectSellerStats d cr ! j) = id (data_sellers d ! j)"
    by (simp add: collectSellerStats_def Let_def i0)
  have "map fst (products_sold (foldl (salesRecordStep cr (sellerIndexOf ?init)
            (productIndexOf (data_products d))) ?init (purchase_records d) ! j)) =
     foldl (\<lambda>seen x. if x \<in> set seen then seen else seen @ [x])
       (map fst (products_sold (?init ! j)))
       (map sku (filter (\<lambda>item. map_of (productIndexOf (data_products d)) (sku item) \<noteq> None)
          (allItems (filter (\<lambda>r. map_of (sellerIndexOf ?init) (seller_id r) = Some j)
             (purchase_records d)))))"
    by (rule sold_records) (rule sellerIndex_range)
  then have 3: "map fst (products_sold (collectSellerStats d cr ! j)) = firstOccurrences (soldSkus d j)"
    unfolding productIndex_known i0
    by (simp add: collectSellerStats_def Let_def firstOccurrences_def soldSkus_def)
  from 1 2 3 show ?thesis by blast
qed

lemma mapE_Inr_set:
  "mapE f xs = Inr ys \<Longrightarrow> y \<in> set ys \<Longrightarrow> \<exists>x \<in> set xs. f x = Inr y"
proof (induction xs arbitrary: ys)
  case Nil
  then show ?case by simp
next
  case (Cons x xs)
  from Cons.prems(1) obtain z zs where z: "f x = Inr z" "mapE f xs = Inr zs" "ys = z # zs"
    by (auto split: sum.splits)
  show ?case
  proof (cases "y = z")
    case True
    with z show ?thesis by simp
  next
    case False
    with Cons.prems(2) z have "y \<in> set zs" by simp
    from Cons.IH [OF z(2) this] show ?thesis by auto
  qed
qed

lemma salesReport_entry:
  assumes "salesReport d cr cb = Inr reports" and "rep \<in> set reports"
  shows "\<exists>s \<in> set (collectSellerStats d cr).
           report_seller_id rep = sellerId s \<and> top_products rep = topProducts s"
proof -
  let ?ss = "rankSellers (collectSellerStats d cr)"
  from assms(1) obtain ranked where r: "assignBonuses cb ?ss = Inr ranked"
    and m: "mapE sellerReport ranked = Inr reports"
    by (auto simp: salesReport_def split: sum.splits)
  from mapE_Inr_set [OF m assms(2)] obtain entry where
    e: "entry \<in> set ranked" "sellerReport entry = Inr rep" by blast
  from r have "mapE (\<lambda>(index, seller).
             case cb (JSeller seller) (JNum (real index)) (JNum (real (length ?ss))) of
               Inl e \<Rightarrow> Inl e
             | Inr b \<Rightarrow> Inr (seller, b, topProducts seller)) (enumerate 0 ?ss) = Inr ranked"
    by (simp add: assignBonuses_def)
  from mapE_Inr_set [OF this e(1)] obtain p where
    p: "p \<in> set (enumerate 0 ?ss)"
       "(case p of (index, seller) \<Rightarrow>
             case cb (JSeller seller) (JNum (real index)) (JNum (real (length ?ss))) of
               Inl e \<Rightarrow> Inl e
             | Inr b \<Rightarrow> Inr (seller, b, topProducts seller)) = Inr entry"
    by blast
  obtain k s where ks: "p = (k, s)" by (cases p)
  from p(1) ks have s: "s \<in> set ?ss" by (auto simp: in_set_enumerate_eq)
  from p(2) ks obtain b where entry: "entry = (s, b, topProducts s)"
    by (auto split: sum.splits)
  from e(2) entry have "report_seller_id rep = sellerId s \<and> top_products rep = topProducts s"
    by (auto simp: sellerReport_def split: jsval.splits)
  with s show ?thesis by (auto simp: set_rankSellers)
qed

lemma fromEntries_distinct_foldl:
  "distinct (map fst acc @ map fst es) \<Longrightarrow>
   foldl (\<lambda>obj (k, v). AList.update k v obj) acc es = acc @ es"
proof (induction es arbitrary: acc)
  case Nil
  show ?case by simp
next
  case (Cons e es)
  obtain k v where e: "e = (k, v)" by (cases e)
  from Cons.prems e have n: "k \<notin> fst ` set acc" by auto
  have u: "AList.update k v acc = acc @ [(k, v)]"
    using n by (induction acc) auto
  have d: "distinct (map fst (acc @ [(k, v)]) @ map fst es)" using Cons.prems e by auto
  show ?case
    unfolding e foldl_Cons prod.case u Cons.IH [OF d] by simp
qed

lemma sellerIndex_distinct:
  assumes "distinct (map id sellerCatalog)"
  shows "(map_of (sellerIndexOf (initialSellerStats sellerCatalog)) sid = Some i) =
         (i < length sellerCatalog \<and> id (sellerCatalog ! i) = sid)"
proof -
  let ?init = "initialSellerStats sellerCatalog"
  let ?es = "map (\<lambda>(i, seller). (sellerId seller, i)) (enumerate 0 ?init)"
  have g: "map fst (map (\<lambda>(i, seller). (sellerId seller, i)) ys) = map sellerId (map snd ys)"
    for ys :: "(nat \<times> seller_stat) list"
    by (induction ys) auto
  have "map fst ?es = map sellerId (map snd (enumerate 0 ?init))" by (rule g)
  also have "\<dots> = map sellerId ?init" by (simp only: map_snd_enumerate)
  also have "\<dots> = map id sellerCatalog" by (simp add: initialSellerStats_def comp_def)
  finally have keys: "map fst ?es = map id sellerCatalog" .
  have f: "sellerIndexOf ?init = ?es"
    unfolding sellerIndexOf_def Object_fromEntries_def
    using fromEntries_distinct_foldl [of "[]" ?es] assms keys by simp
  have d: "distinct (map fst ?es)" using assms keys by simp
  have "(map_of ?es sid = Some i) = ((sid, i) \<in> set ?es)"
    using d by (auto intro: map_of_is_SomeI dest: map_of_SomeD)
  also have "\<dots> = (i < length sellerCatalog \<and> id (sellerCatalog ! i) = sid)"
  proof
    assume "(sid, i) \<in> set ?es"
    then obtain p where p: "p \<in> set (enumerate 0 ?init)" "sellerId (snd p) = sid" "fst p = i"
      by auto
    from p(1) p(3) have "i < length ?init" "snd p = ?init ! i"
      by (auto simp: in_set_enumerate_eq)
    with p(2) show "i < length sellerCatalog \<and> id (sellerCatalog ! i) = sid"
      by (simp add: initialSellerStats_def)
  next
    assume a: "i < length sellerCatalog \<and> id (sellerCatalog ! i) = sid"
    then have "(i, ?init ! i) \<in> set (enumerate 0 ?init)"
      by (simp add: in_set_enumerate_eq initialSellerStats_def)
    moreover from a have "sellerId (?init ! i) = sid" by (simp add: initialSellerStats_def)
    ultimately show "(sid, i) \<in> set ?es" by force
  qed
  finally show ?thesis by (simp add: f)
qed

lemma one_index: "sellerIndexOf (initialSellerStats oneSeller) = [(''seller_1'', 0)]"
  by (simp add: sellerIndexOf_def initialSellerStats_def oneSeller_def Object_fromEntries_def)

lemma numeric_pindex: "productIndexOf numericSkuProducts =
   [(''2'', \<lparr>product_sku = ''2'', purchase_price = 10\<rparr>),
    (''1'', \<lparr>product_sku = ''1'', purchase_price = 10\<rparr>)]"
  by (simp add: productIndexOf_def numericSkuProducts_def Object_fromEntries_def)

lemma numeric_stats:
  "collectSellerStats
     \<lparr>data_customers = sampleCustomers, data_products = numericSkuProducts,
      data_sellers = oneSeller, purchase_records = numericSkuRecords\<rparr> calculateSimpleRevenue =
   [\<lparr>sellerId = ''seller_1'', firstName = ''Anna'', lastName = ''Ivanova'',
      startDate = ''2020-01-01'', sellerPosition = ''Senior'',
      revenue = 200, profit = 100, sales_count = 1,
      products_sold = [(''2'', 5), (''1'', 5)]\<rparr>]"
  unfolding collectSellerStats_def Let_def dataset.simps one_index numeric_pindex
  by (simp add: numericSkuRecords_def salesRecordStep_def salesItemStep_def Let_def
      initialSellerStats_def oneSeller_def calculateSimpleRevenue_def)

lemma numeric_check:
  "checkArguments numericSkuArg (Options (Fn calculateSimpleRevenue) (Fn calculateBonusByProfit)) =
     Inr (\<lparr>data_customers = sampleCustomers, data_products = numericSkuProducts,
           data_sellers = oneSeller, purchase_records = numericSkuRecords\<rparr>,
          calculateSimpleRevenue, calculateBonusByProfit)"
  by (simp add: checkArguments_def numericSkuArg_def isArray_def arrayOf_def
      sampleCustomers_def numericSkuProducts_def oneSeller_def numericSkuRecords_def)

lemma numeric_entries:
  "Object_entries [(''2'', 5 :: real), (''1'', 5)] = [(''1'', 5), (''2'', 5)]"
  by (simp add: Object_entries_def isArrayIndex_def arrayIndex_2 arrayIndex_1)

text \<open>
  C8, as the claim states it, fails.  The seller sold five units of the sku \<open>2\<close> and
  then five units of the sku \<open>1\<close>; the two entries have equal quantities, and the report
  lists \<open>1\<close> before \<open>2\<close>, because \<^verbatim>\<open>Object.entries\<close> enumerates the numeral keys of
  \<^verbatim>\<open>products_sold\<close> in ascending order.
\<close>

theorem top_products_order_counterexample:
  "analyzeSalesData numericSkuArg (Options (Fn calculateSimpleRevenue) (Fn calculateBonusByProfit)) =
     Inr [\<lparr>report_seller_id = ''seller_1'', name = ''Anna Ivanova'', report_revenue = 200,
            report_profit = 100, report_sales_count = 1,
            top_products = [(''1'', 5), (''2'', 5)], report_bonus = 0\<rparr>] \<and>
   map sku (items (hd numericSkuRecords)) = [''2'', ''1'']"
proof -
  have r: "rankSellers (collectSellerStats
     \<lparr>data_customers = sampleCustomers, data_products = numericSkuProducts,
      data_sellers = oneSeller, purchase_records = numericSkuRecords\<rparr> calculateSimpleRevenue) =
     collectSellerStats
     \<lparr>data_customers = sampleCustomers, data_products = numericSkuProducts,
      data_sellers = oneSeller, purchase_records = numericSkuRecords\<rparr> calculateSimpleRevenue"
    unfolding numeric_stats by (simp add: rankSellers_def sortBy_def)
  have a: "analyzeSalesData numericSkuArg (Options (Fn calculateSimpleRevenue) (Fn calculateBonusByProfit)) =
     Inr [\<lparr>report_seller_id = ''seller_1'', name = ''Anna Ivanova'', report_revenue = 200,
            report_profit = 100, report_sales_count = 1,
            top_products = [(''1'', 5), (''2'', 5)], report_bonus = 0\<rparr>]"
    unfolding analyzeSalesData_def numeric_check sum.case prod.case salesReport_swapped r
    unfolding numeric_stats
    by (simp add: topProducts_def numeric_entries sortBy_def)
  have b: "map sku (items (hd numericSkuRecords)) = [''2'', ''1'']"
    by (simp add: numericSkuRecords_def)
  from a b show ?thesis by simp
qed

text \<open>
  C8, amended.  In every report returned by \<open>analyzeSalesData\<close> the \<open>top_products\<close> list
  has at most 10 entries and its quantities are in non-increasing order.  It is the
  first 10 entries of the stable descending sort of the entries of the seller's
  \<^verbatim>\<open>products_sold\<close>, whose keys are in enumeration order: the skus that are array indices
  first, in ascending numeric order, then the other skus in the order in which they
  were first encountered in the seller's processed items.  So entries with equal
  quantity appear in enumeration order, which is the order of first encounter when no
  sku is an array index.  With distinct seller ids, the processed items of a seller are
  the items with a catalog product in the records that carry the seller's id.
\<close>

theorem top_products_order:
  assumes "checkArguments data options = Inr (d, calcRevenue, calcBonus)"
    and "analyzeSalesData data options = Inr reports"
    and "rep \<in> set reports"
  shows "length (top_products rep) \<le> 10 \<and>
     sorted_wrt (\<lambda>x y. y \<le> x) (map snd (top_products rep)) \<and>
     (\<exists>i entries.
        i < length (data_sellers d) \<and>
        report_seller_id rep = id (data_sellers d ! i) \<and>
        map fst entries = enumerationOrder (firstOccurrences (soldSkus d i)) \<and>
        top_products rep = take 10 (sort_key (\<lambda>e. - snd e) entries) \<and>
        (\<forall>q. \<exists>m. filter (\<lambda>e. snd e = q) (top_products rep) =
                  take m (filter (\<lambda>e. snd e = q) entries)) \<and>
        ((\<forall>k \<in> set (soldSkus d i). \<not> isArrayIndex k) \<longrightarrow>
           map fst entries = firstOccurrences (soldSkus d i)) \<and>
        (distinct (map id (data_sellers d)) \<longrightarrow>
           soldSkus d i =
             map sku (filter (\<lambda>item. sku item \<in> product_sku ` set (data_products d))
               (allItems (filter (\<lambda>r. seller_id r = id (data_sellers d ! i))
                  (purchase_records d))))))"
proof -
  from assms(1,2) have sr: "salesReport d calcRevenue calcBonus = Inr reports"
    by (simp add: analyzeSalesData_def)
  from salesReport_entry [OF sr assms(3)] obtain s where
    s: "s \<in> set (collectSellerStats d calcRevenue)"
       "report_seller_id rep = sellerId s" "top_products rep = topProducts s"
    by blast
  from s(1) obtain i where i: "i < length (collectSellerStats d calcRevenue)"
      "s = collectSellerStats d calcRevenue ! i"
    by (auto simp: in_set_conv_nth)
  have len: "length (collectSellerStats d calcRevenue) = length (data_sellers d)"
    by (simp add: collectSellerStats_def Let_def initialSellerStats_def)
  with i have il: "i < length (data_sellers d)" by simp
  note c = collectSellerStats_sold [OF il, of calcRevenue]
  let ?entries = "Object_entries (products_sold s)"
  have keys: "map fst ?entries = enumerationOrder (firstOccurrences (soldSkus d i))"
    using c i(2) by (simp add: Object_keys_enumerationOrder)
  have tp: "top_products rep = take 10 (sort_key (\<lambda>e. - snd e) ?entries)"
    by (simp add: s(3) topProducts_sort_key)
  note P = topProducts_properties [of s]
  have noidx: "map fst ?entries = firstOccurrences (soldSkus d i)"
    if "\<forall>k \<in> set (soldSkus d i). \<not> isArrayIndex k"
    unfolding keys using that
    by (intro enumerationOrder_no_index) (simp add: set_firstOccurrences)
  have own: "soldSkus d i =
             map sku (filter (\<lambda>item. sku item \<in> product_sku ` set (data_products d))
               (allItems (filter (\<lambda>r. seller_id r = id (data_sellers d ! i))
                  (purchase_records d))))"
    if dist: "distinct (map id (data_sellers d))"
  proof -
    have eq: "(map_of (sellerIndexOf (initialSellerStats (data_sellers d))) (seller_id r) = Some i)
        = (seller_id r = id (data_sellers d ! i))" for r
      using sellerIndex_distinct [OF dist, of "seller_id r" i] il by auto
    show ?thesis unfolding soldSkus_def eq ..
  qed
  have 1: "length (top_products rep) \<le> 10" using P by (simp add: s(3))
  have 2: "sorted_wrt (\<lambda>x y. y \<le> x) (map snd (top_products rep))" using P by (simp add: s(3))
  have 3: "\<forall>q. \<exists>m. filter (\<lambda>e. snd e = q) (top_products rep) =
                  take m (filter (\<lambda>e. snd e = q) ?entries)"
    using P by (simp add: s(3))
  have id: "report_seller_id rep = id (data_sellers d ! i)"
    using c i(2) s(2) by simp
  from il id keys tp 3 noidx own have
    "\<exists>i entries.
        i < length (data_sellers d) \<and>
        report_seller_id rep = id (data_sellers d ! i) \<and>
        map fst entries = enumerationOrder (firstOccurrences (soldSkus d i)) \<and>
        top_products rep = take 10 (sort_key (\<lambda>e. - snd e) entries) \<and>
        (\<forall>q. \<exists>m. filter (\<lambda>e. snd e = q) (top_products rep) =
                  take m (filter (\<lambda>e. snd e = q) entries)) \<and>
        ((\<forall>k \<in> set (soldSkus d i). \<not> isArrayIndex k) \<longrightarrow>
           map fst entries = firstOccurrences (soldSkus d i)) \<and>
        (distinct (map id (data_sellers d)) \<longrightarrow>
           soldSkus d i =
             map sku (filter (\<lambda>item. sku item \<in> product_sku ` set (data_products d))
               (allItems (filter (\<lambda>r. seller_id r = id (data_sellers d ! i))
                  (purchase_records d)))))"
    by (intro exI [of _ i] exI [of _ ?entries]) blast
  with 1 2 show ?thesis by blast
qed

lemma basket_stats:
  "collectSellerStats basketData calculateSimpleRevenue =
   [\<lparr>sellerId = ''seller_1'', firstName = ''Anna'', lastName = ''Ivanova'',
      startDate = ''2020-01-01'', sellerPosition = ''Senior'',
      revenue = 650, profit = 300, sales_count = 1,
      products_sold = [(''SKU_002'', 5), (''SKU_001'', 5)]\<rparr>]"
  unfolding collectSellerStats_def Let_def basketData_def dataset.simps one_index sample_pindex
  by (simp add: basketRecords_def salesRecordStep_def salesItemStep_def Let_def
      initialSellerStats_def oneSeller_def calculateSimpleRevenue_def)

lemma basket_check:
  "checkArguments basketArg (Options (Fn calculateSimpleRevenue) (Fn calculateBonusByProfit)) =
     Inr (basketData, calculateSimpleRevenue, calculateBonusByProfit)"
  by (simp add: checkArguments_def basketArg_def basketData_def isArray_def arrayOf_def
      sampleCustomers_def sampleProducts_def oneSeller_def basketRecords_def)

lemma basket_reports:
  "analyzeSalesData basketArg (Options (Fn calculateSimpleRevenue) (Fn calculateBonusByProfit)) =
     Inr [basketReport]"
proof -
  have r: "rankSellers (collectSellerStats basketData calculateSimpleRevenue) =
     collectSellerStats basketData calculateSimpleRevenue"
    unfolding basket_stats by (simp add: rankSellers_def sortBy_def)
  show ?thesis
    unfolding analyzeSalesData_def basket_check sum.case prod.case salesReport_swapped r
    unfolding basket_stats
    by (simp add: topProducts_def Object_entries_def isArrayIndex_def arrayIndex_SKU sortBy_def
        basketReport_def)
qed

lemma basket_sold: "soldSkus basketData 0 = [''SKU_002'', ''SKU_001'', ''SKU_002'']"
  unfolding soldSkus_def basketData_def dataset.simps one_index
  by (simp add: basketRecords_def allItems_def sampleProducts_def)

text \<open>
  The theorem at the sale with two products of equal quantity: \<open>SKU_002\<close>, encountered
  first, comes first.
\<close>

theorem top_products_order_witness:
  "analyzeSalesData basketArg (Options (Fn calculateSimpleRevenue) (Fn calculateBonusByProfit)) =
     Inr [basketReport] \<and>
   top_products basketReport = [(''SKU_002'', 5), (''SKU_001'', 5)] \<and>
   length (top_products basketReport) \<le> 10 \<and>
   sorted_wrt (\<lambda>x y. y \<le> x) (map snd (top_products basketReport)) \<and>
   (\<exists>entries. map fst entries = firstOccurrences (soldSkus basketData 0) \<and>
      top_products basketReport = take 10 (sort_key (\<lambda>e. - snd e) entries)) \<and>
   firstOccurrences (soldSkus basketData 0) = [''SKU_002'', ''SKU_001'']"
proof -
  let ?opts = "Options (Fn calculateSimpleRevenue) (Fn calculateBonusByProfit)"
  have m: "basketReport \<in> set [basketReport]" by simp
  from top_products_order [OF basket_check basket_reports m]
  obtain i entries where
    1: "length (top_products basketReport) \<le> 10"
    and 2: "sorted_wrt (\<lambda>x y. y \<le> x) (map snd (top_products basketReport))"
    and i: "i < length (data_sellers basketData)"
    and tp: "top_products basketReport = take 10 (sort_key (\<lambda>e. - snd e) entries)"
    and n: "(\<forall>k \<in> set (soldSkus basketData i). \<not> isArrayIndex k) \<longrightarrow>
           map fst entries = firstOccurrences (soldSkus basketData i)"
    by blast
  from i have i0: "i = 0" by (simp add: basketData_def oneSeller_def)
  have "\<forall>k \<in> set (soldSkus basketData 0). \<not> isArrayIndex k"
    by (simp add: basket_sold isArrayIndex_def arrayIndex_SKU)
  with n i0 have k: "map fst entries = firstOccurrences (soldSkus basketData 0)" by simp
  have f: "firstOccurrences (soldSkus basketData 0) = [''SKU_002'', ''SKU_001'']"
    by (simp add: basket_sold firstOccurrences_def)
  have t: "top_products basketReport = [(''SKU_002'', 5), (''SKU_001'', 5)]"
    by (simp add: basketReport_def)
  from basket_reports t 1 2 k tp f show ?thesis by blast
qed

end
